theory Spec2Isabelle
  imports
    Complex_Main
    "HOL-Library.Sublist"
    "HOL-Library.Char_ord"
    "HOL-Library.List_Lexorder"
begin

section \<open>Turf finder: cache key, search aggregation, result building, distance step\<close>

text \<open>
  A shallow embedding of the TypeScript sources of the turf finder: \<open>cache.ts\<close>,
  \<open>google.ts\<close> and the result builder and distance step of \<open>index.ts\<close>.

  Conventions of the embedding.
  \<^item> A JavaScript \<open>number\<close> that is an input (a coordinate, a rating) is a \<open>real\<close>; a
    count is an \<open>int\<close>. A number the code computes, which may be \<open>Infinity\<close> or \<open>NaN\<close>, is
    a \<open>jsnum\<close>.
  \<^item> The arithmetic of IEEE doubles, which rounds, is not modelled. The functions of
    \<open>distance.ts\<close> that compute in doubles, \<open>haversineDistance\<close> and \<open>roundDistance\<close>, are
    parameters of the distance step: what is proved of the step holds whatever they
    return.
  \<^item> An optional field \<open>f?: T\<close> is a \<open>T option\<close>; \<open>None\<close> is \<open>undefined\<close>.
  \<^item> A string is a \<open>string\<close> (a list of characters); \<open>length\<close> is the JavaScript
    \<open>.length\<close>.
  \<^item> A \<open>throw\<close> is the left injection of a sum type.
\<close>

subsection \<open>JavaScript numbers that may be infinite or not-a-number\<close>

datatype jsnum = Num real | Infinity | NaN

text \<open>\<open>a <= b\<close> on numbers; every comparison with \<open>NaN\<close> is false.\<close>

fun js_le :: "jsnum \<Rightarrow> jsnum \<Rightarrow> bool" where
  "js_le (Num a) (Num b) = (a \<le> b)"
| "js_le (Num a) Infinity = True"
| "js_le Infinity Infinity = True"
| "js_le Infinity (Num b) = False"
| "js_le NaN b = False"
| "js_le a NaN = False"

text \<open>\<open>a > b\<close> on numbers.\<close>

fun js_gt :: "jsnum \<Rightarrow> jsnum \<Rightarrow> bool" where
  "js_gt (Num a) (Num b) = (a > b)"
| "js_gt Infinity (Num b) = True"
| "js_gt Infinity Infinity = False"
| "js_gt (Num a) Infinity = False"
| "js_gt NaN b = False"
| "js_gt a NaN = False"

subsection \<open>Coordinates (\<open>types.ts\<close>)\<close>

record LatLng =
  lat :: real
  lng :: real

subsection \<open>Configuration and provider records (\<open>types.ts\<close>)\<close>

record Config =
  defaultRadiusKm :: real
  maxResults :: int
  detailsLimit :: int
  cacheTtlMs :: int
  concurrencyLimit :: int

definition DEFAULT_CONFIG :: Config where
  "DEFAULT_CONFIG =
     \<lparr>defaultRadiusKm = 5, maxResults = 30, detailsLimit = 20,
      cacheTtlMs = 10 * 60 * 1000, concurrencyLimit = 5\<rparr>"

text \<open>
  The provider records, with the fields the code reads. \<open>LocalizedText\<close> is the shape
  \<open>{ text?: string }\<close> of \<open>displayName\<close>, \<open>text\<close> and \<open>originalText\<close>.
\<close>

record LocalizedText =
  lt_text :: "string option"

record PlaceLocation =
  latitude :: "real option"
  longitude :: "real option"

record GooglePhoto =
  photo_name :: string

record RegularOpeningHours =
  openNow :: "bool option"

record AuthorAttribution =
  author_displayName :: "string option"

record GoogleReview =
  review_relativePublishTimeDescription :: "string option"
  review_rating :: "real option"
  review_text :: "LocalizedText option"
  review_originalText :: "LocalizedText option"
  review_authorAttribution :: "AuthorAttribution option"

record NearbySearchPlace =
  place_id :: string
  place_displayName :: "LocalizedText option"
  place_formattedAddress :: "string option"
  place_location :: "PlaceLocation option"
  place_rating :: "real option"
  place_userRatingCount :: "int option"
  place_photos :: "GooglePhoto list option"
  place_regularOpeningHours :: "RegularOpeningHours option"
  place_businessStatus :: "string option"
  place_types :: "string list option"

record PlaceDetailsResponse =
  details_id :: string
  details_displayName :: "LocalizedText option"
  details_formattedAddress :: "string option"
  details_nationalPhoneNumber :: "string option"
  details_internationalPhoneNumber :: "string option"
  details_location :: "PlaceLocation option"
  details_rating :: "real option"
  details_userRatingCount :: "int option"
  details_photos :: "GooglePhoto list option"
  details_reviews :: "GoogleReview list option"
  details_regularOpeningHours :: "RegularOpeningHours option"
  details_googleMapsUri :: "string option"
  details_websiteUri :: "string option"
  details_businessStatus :: "string option"

record TurfReview =
  tr_author :: string
  tr_rating :: "real option"
  tr_relativeTime :: string
  tr_text :: string

record TurfResult =
  result_placeId :: string
  result_name :: string
  result_distanceKm :: jsnum
  result_address :: string
  result_mapsUrl :: string
  result_phone :: "string option"
  result_openNow :: "bool option"
  result_rating :: "real option"
  result_userRatingsTotal :: "int option"
  result_photos :: "string list"
  result_topReviews :: "TurfReview list"
  result_lat :: "real option"
  result_lng :: "real option"

datatype error = GoogleApiError | TypeError | NetworkError

text \<open>
  Truthiness of an optional string: \<open>undefined\<close> and the empty string are falsy. With it,
  \<open>a || b\<close> is \<open>if truthy a then a else b\<close>.
\<close>

fun truthy :: "string option \<Rightarrow> bool" where
  "truthy None = False"
| "truthy (Some s) = (s \<noteq> [])"

text \<open>
  Truthiness of an optional number: \<open>undefined\<close> and \<open>0\<close> are falsy (\<open>NaN\<close>, the third falsy
  number, is no real).
\<close>

fun truthy_num :: "real option \<Rightarrow> bool" where
  "truthy_num None = False"
| "truthy_num (Some x) = (x \<noteq> 0)"

text \<open>\<open>a || b\<close> on optional strings, and \<open>a || 'literal'\<close>.\<close>

definition or_else :: "string option \<Rightarrow> string option \<Rightarrow> string option" where
  "or_else a b = (if truthy a then a else b)"

definition or_default :: "string option \<Rightarrow> string \<Rightarrow> string" where
  "or_default a d = (case a of Some s \<Rightarrow> if s \<noteq> [] then s else d | None \<Rightarrow> d)"

text \<open>\<open>a ?? b\<close>: the left operand unless it is \<open>undefined\<close> or \<open>null\<close>.\<close>

fun nullish :: "'a option \<Rightarrow> 'a option \<Rightarrow> 'a option" where
  "nullish (Some a) b = Some a"
| "nullish None b = b"

text \<open>\<open>obj?.field\<close> on an optional object whose field is itself optional.\<close>

fun opt_chain :: "'a option \<Rightarrow> ('a \<Rightarrow> 'b option) \<Rightarrow> 'b option" where
  "opt_chain None f = None"
| "opt_chain (Some a) f = f a"

subsection \<open>TTL cache (\<open>cache.ts\<close>)\<close>

text \<open>\<open>Array.prototype.join\<close>.\<close>

fun join :: "string \<Rightarrow> string list \<Rightarrow> string" where
  "join sep [] = []"
| "join sep [x] = x"
| "join sep (x # y # xs) = x @ sep @ join sep (y # xs)"

text \<open>
  A parameter record \<open>Record<string, unknown>\<close> is the list of its entries in insertion
  order, which is the order \<open>Object.keys\<close> lists them in; its keys are distinct.
  \<open>JSON.stringify\<close> is the parameter \<open>stringify\<close>; a key without an entry reads as
  \<open>undefined\<close>, which a template literal prints as \<open>undefined\<close>. \<open>sort()\<close> without a
  comparator orders strings by their code units, the lexicographic order on \<open>string\<close>.
\<close>

definition keyEntry :: "('v \<Rightarrow> string) \<Rightarrow> (string \<times> 'v) list \<Rightarrow> string \<Rightarrow> string" where
  "keyEntry stringify params key =
     key @ ''='' @ (case map_of params key of Some v \<Rightarrow> stringify v | None \<Rightarrow> ''undefined'')"

definition generateKey :: "('v \<Rightarrow> string) \<Rightarrow> (string \<times> 'v) list \<Rightarrow> string" where
  "generateKey stringify params =
     join ''&'' (map (keyEntry stringify params) (sort (map fst params)))"

record 'a CacheEntry =
  data :: 'a
  expiresAt :: int

record 'a TtlCache =
  entries :: "string \<rightharpoonup> 'a CacheEntry"
  ttlMs :: int

text \<open>\<open>get\<close> at the time \<open>now\<close> (\<open>Date.now()\<close>): the value and the cache, an expired entry deleted.\<close>

definition cache_get :: "int \<Rightarrow> 'a TtlCache \<Rightarrow> string \<Rightarrow> 'a option \<times> 'a TtlCache" where
  "cache_get now c key =
     (case entries c key of
        None \<Rightarrow> (None, c)
      | Some entry \<Rightarrow>
          if now > expiresAt entry then (None, c\<lparr>entries := (entries c)(key := None)\<rparr>)
          else (Some (data entry), c))"

definition cache_set :: "int \<Rightarrow> 'a TtlCache \<Rightarrow> string \<Rightarrow> 'a \<Rightarrow> 'a TtlCache" where
  "cache_set now c key d =
     c\<lparr>entries := (entries c)(key \<mapsto> \<lparr>data = d, expiresAt = now + ttlMs c\<rparr>)\<rparr>"

subsection \<open>Places client (\<open>google.ts\<close>): constants and the post-hoc filter\<close>

definition DEFAULT_TURF_KEYWORDS :: "string list" where
  "DEFAULT_TURF_KEYWORDS =
     [''turf'', ''football turf'', ''box cricket'', ''turf ground'', ''sports turf'',
      ''cricket ground'', ''football ground'', ''futsal'', ''five a side football'',
      ''seven a side football'']"

definition EXCLUDE_KEYWORDS :: "string list" where
  "EXCLUDE_KEYWORDS =
     [''bowling'', ''bowl'', ''arcade'', ''gaming zone'', ''game zone'', ''virtual reality'',
      ''vr arena'', ''laser tag'', ''escape room'', ''trampoline'', ''go kart'', ''karting'',
      ''billiard'', ''pool table'', ''snooker'', ''paintball'', ''shooting range'',
      ''ice skating'', ''roller skating'', ''spa'', ''salon'', ''restaurant'', ''cafe'',
      ''bar'', ''pub'', ''lounge'']"

definition excludeTypes :: "string list" where
  "excludeTypes =
     [''bowling_alley'', ''amusement_center'', ''movie_theater'', ''night_club'', ''casino'',
      ''bar'', ''restaurant'', ''cafe'']"

text \<open>
  \<open>toLowerCase\<close> on the letters \<open>A\<close> to \<open>Z\<close>; every other character is left as it is
  (the case mappings of characters beyond ASCII are not modelled).
\<close>

definition lower_char :: "char \<Rightarrow> char" where
  "lower_char c =
     (case map_of (zip ''ABCDEFGHIJKLMNOPQRSTUVWXYZ'' ''abcdefghijklmnopqrstuvwxyz'') c of
        Some l \<Rightarrow> l
      | None \<Rightarrow> c)"

definition toLowerCase :: "string \<Rightarrow> string" where
  "toLowerCase s = map lower_char s"

text \<open>\<open>s.includes(keyword)\<close>: the keyword occurs in \<open>s\<close> as a contiguous run.\<close>

fun str_includes :: "string \<Rightarrow> string \<Rightarrow> bool" where
  "str_includes [] keyword = (keyword = [])"
| "str_includes (c # s) keyword = (prefix keyword (c # s) \<or> str_includes s keyword)"

text \<open>
  The two loops of the filter callback: the first keyword found in the name, the first
  excluded type found among the types; each returns \<open>false\<close> from the callback at once.
\<close>

fun nameHasKeyword :: "string \<Rightarrow> string list \<Rightarrow> bool" where
  "nameHasKeyword name [] = False"
| "nameHasKeyword name (keyword # keywords) =
     (if str_includes name keyword then True else nameHasKeyword name keywords)"

fun hasExcludedType :: "string list \<Rightarrow> string list \<Rightarrow> bool" where
  "hasExcludedType types [] = False"
| "hasExcludedType types (t # ts) =
     (if t \<in> set types then True else hasExcludedType types ts)"

definition placeName :: "NearbySearchPlace \<Rightarrow> string" where
  "placeName place =
     toLowerCase (or_default (opt_chain (place_displayName place) lt_text) [])"

definition keepPlace :: "NearbySearchPlace \<Rightarrow> bool" where
  "keepPlace place =
     (let name = placeName place;
          types = (case place_types place of Some ts \<Rightarrow> ts | None \<Rightarrow> [])
      in if nameHasKeyword name EXCLUDE_KEYWORDS then False
         else if hasExcludedType types excludeTypes then False
         else True)"

definition filterTurfResults :: "NearbySearchPlace list \<Rightarrow> NearbySearchPlace list" where
  "filterTurfResults places = filter keepPlace places"

subsection \<open>Places client: the search requests\<close>

record NearbySearchOptions =
  ns_lat :: real
  ns_lng :: real
  ns_radiusMeters :: real
  ns_includedTypes :: "string list option"
  ns_keyword :: "string option"
  ns_maxResultCount :: "int option"

record TextSearchOptions =
  ts_textQuery :: string
  ts_lat :: real
  ts_lng :: real
  ts_radiusMeters :: real
  ts_maxResultCount :: "int option"

text \<open>The \<open>locationRestriction.circle\<close> of a request body.\<close>

record Circle =
  center_latitude :: real
  center_longitude :: real
  radius :: real

record NearbyRequestBody =
  nb_circle :: Circle
  nb_maxResultCount :: int
  nb_includedTypes :: "string list option"

record TextRequestBody =
  tb_textQuery :: string
  tb_circle :: Circle
  tb_maxResultCount :: int

text \<open>\<open>options.maxResultCount || DEFAULT_CONFIG.maxResults\<close>: \<open>undefined\<close> and \<open>0\<close> are falsy.\<close>

definition count_or_default :: "int option \<Rightarrow> int \<Rightarrow> int" where
  "count_or_default c d = (case c of Some n \<Rightarrow> if n \<noteq> 0 then n else d | None \<Rightarrow> d)"

text \<open>The request body \<open>nearbySearch\<close> posts when the cache has no entry.\<close>

definition nearbySearch_requestBody :: "NearbySearchOptions \<Rightarrow> NearbyRequestBody" where
  "nearbySearch_requestBody options =
     \<lparr>nb_circle =
        \<lparr>center_latitude = ns_lat options, center_longitude = ns_lng options,
         radius = min (ns_radiusMeters options) 50000\<rparr>,
      nb_maxResultCount = count_or_default (ns_maxResultCount options) (maxResults DEFAULT_CONFIG),
      nb_includedTypes =
        (case ns_includedTypes options of
           Some ts \<Rightarrow> if length ts > 0 then Some ts else None
         | None \<Rightarrow> None)\<rparr>"

text \<open>The request body \<open>textSearch\<close> posts when the cache has no entry.\<close>

definition textSearch_requestBody :: "TextSearchOptions \<Rightarrow> TextRequestBody" where
  "textSearch_requestBody options =
     \<lparr>tb_textQuery = ts_textQuery options,
      tb_circle =
        \<lparr>center_latitude = ts_lat options, center_longitude = ts_lng options,
         radius = min (ts_radiusMeters options) 50000\<rparr>,
      tb_maxResultCount = count_or_default (ts_maxResultCount options) (maxResults DEFAULT_CONFIG)\<rparr>"

subsection \<open>Places client: \<open>searchTurfs\<close>\<close>

text \<open>
  \<open>nearbySearch\<close> and \<open>textSearch\<close> are called through stubs that map the options of a
  call to its outcome: the places found, or the \<open>GoogleApiError\<close> thrown. The state of a
  run is the set \<open>seenPlaceIds\<close>, the list \<open>allPlaces\<close>, and the text searches issued so
  far, each with the value of \<open>allPlaces.length\<close> at the moment of the call.
\<close>

type_synonym nearby_stub = "NearbySearchOptions \<Rightarrow> error + NearbySearchPlace list"
type_synonym text_stub = "TextSearchOptions \<Rightarrow> error + NearbySearchPlace list"

record SearchState =
  seenPlaceIds :: "string set"
  allPlaces :: "NearbySearchPlace list"
  textCalls :: "(TextSearchOptions \<times> nat) list"

text \<open>The loop \<open>for (const place of places) if (!seenPlaceIds.has(place.id)) ...\<close>.\<close>

fun addUnique :: "NearbySearchPlace list \<Rightarrow> SearchState \<Rightarrow> SearchState" where
  "addUnique [] st = st"
| "addUnique (place # places) st =
     (if place_id place \<in> seenPlaceIds st then addUnique places st
      else addUnique places
             (st\<lparr>seenPlaceIds := insert (place_id place) (seenPlaceIds st),
                 allPlaces := allPlaces st @ [place]\<rparr>))"

definition buildKeywords :: "string option \<Rightarrow> string list" where
  "buildKeywords customKeyword =
     (case customKeyword of
        Some k \<Rightarrow>
          if k \<noteq> [] then k # filter (\<lambda>x. x \<noteq> k) DEFAULT_TURF_KEYWORDS
          else DEFAULT_TURF_KEYWORDS
      | None \<Rightarrow> DEFAULT_TURF_KEYWORDS)"

definition nearbyOptions :: "real \<Rightarrow> real \<Rightarrow> real \<Rightarrow> int \<Rightarrow> NearbySearchOptions" where
  "nearbyOptions qlat qlng radiusMeters maxRes =
     \<lparr>ns_lat = qlat, ns_lng = qlng, ns_radiusMeters = radiusMeters,
      ns_includedTypes = Some [''sports_club'', ''sports_complex'', ''stadium'', ''gym''],
      ns_keyword = None,
      ns_maxResultCount = Some (min 20 maxRes)\<rparr>"

definition textOptions :: "real \<Rightarrow> real \<Rightarrow> real \<Rightarrow> int \<Rightarrow> string \<Rightarrow> TextSearchOptions" where
  "textOptions qlat qlng radiusMeters maxRes keyword =
     \<lparr>ts_textQuery = keyword, ts_lat = qlat, ts_lng = qlng, ts_radiusMeters = radiusMeters,
      ts_maxResultCount = Some (min 20 maxRes)\<rparr>"

text \<open>
  The keyword loop. A search that throws is caught and the loop goes on to the next
  keyword; after a search that returns, \<open>allPlaces.length >= maxResults\<close> breaks the loop.
\<close>

fun keywordLoop ::
  "text_stub \<Rightarrow> real \<Rightarrow> real \<Rightarrow> real \<Rightarrow> int \<Rightarrow> string list \<Rightarrow> SearchState \<Rightarrow> SearchState" where
  "keywordLoop textSearch qlat qlng radiusMeters maxRes [] st = st"
| "keywordLoop textSearch qlat qlng radiusMeters maxRes (keyword # keywords) st =
     (let opts = textOptions qlat qlng radiusMeters maxRes keyword;
          st1 = st\<lparr>textCalls := textCalls st @ [(opts, length (allPlaces st))]\<rparr>
      in case textSearch opts of
           Inl e \<Rightarrow> keywordLoop textSearch qlat qlng radiusMeters maxRes keywords st1
         | Inr places \<Rightarrow>
             (let st2 = addUnique places st1
              in if int (length (allPlaces st2)) \<ge> maxRes then st2
                 else keywordLoop textSearch qlat qlng radiusMeters maxRes keywords st2))"

text \<open>The nearby seed pass; its failure is caught and leaves the state as it is.\<close>

definition nearbyPass :: "nearby_stub \<Rightarrow> NearbySearchOptions \<Rightarrow> SearchState \<Rightarrow> SearchState" where
  "nearbyPass nearbySearch opts st =
     (case nearbySearch opts of
        Inl e \<Rightarrow> st
      | Inr nearbyPlaces \<Rightarrow> addUnique nearbyPlaces st)"

text \<open>\<open>searchTurfs\<close> up to the end of the keyword loop.\<close>

definition searchTurfs_collect ::
  "nearby_stub \<Rightarrow> text_stub \<Rightarrow> real \<Rightarrow> real \<Rightarrow> real \<Rightarrow> string option \<Rightarrow> int \<Rightarrow> SearchState" where
  "searchTurfs_collect nearbySearch textSearch qlat qlng radiusKm customKeyword maxRes =
     (let radiusMeters = radiusKm * 1000;
          keywords = buildKeywords customKeyword;
          st0 = \<lparr>seenPlaceIds = {}, allPlaces = [], textCalls = []\<rparr>;
          st1 = nearbyPass nearbySearch (nearbyOptions qlat qlng radiusMeters maxRes) st0
      in keywordLoop textSearch qlat qlng radiusMeters maxRes keywords st1)"

text \<open>\<open>xs.slice(0, n)\<close>: a negative end counts from the end of the array.\<close>

definition slice0 :: "'a list \<Rightarrow> int \<Rightarrow> 'a list" where
  "slice0 xs n = (if n < 0 then take (nat (int (length xs) + n)) xs else take (nat n) xs)"

definition searchTurfs ::
  "nearby_stub \<Rightarrow> text_stub \<Rightarrow> real \<Rightarrow> real \<Rightarrow> real \<Rightarrow> string option \<Rightarrow> int \<Rightarrow>
   NearbySearchPlace list" where
  "searchTurfs nearbySearch textSearch qlat qlng radiusKm customKeyword maxRes =
     slice0
       (filterTurfResults
          (allPlaces
             (searchTurfs_collect nearbySearch textSearch qlat qlng radiusKm customKeyword maxRes)))
       maxRes"

text \<open>
  What the passes of a run returned, in the order of the passes: the places of the nearby
  pass, then those of every text search issued; a pass that threw contributes nothing.
\<close>

definition passResult :: "error + NearbySearchPlace list \<Rightarrow> NearbySearchPlace list" where
  "passResult r = (case r of Inl e \<Rightarrow> [] | Inr places \<Rightarrow> places)"

definition callResults :: "text_stub \<Rightarrow> (TextSearchOptions \<times> nat) list \<Rightarrow> NearbySearchPlace list" where
  "callResults textSearch calls = concat (map (\<lambda>call. passResult (textSearch (fst call))) calls)"

definition sightings ::
  "nearby_stub \<Rightarrow> text_stub \<Rightarrow> NearbySearchOptions \<Rightarrow> SearchState \<Rightarrow> NearbySearchPlace list" where
  "sightings nearbySearch textSearch nearbyOpts st =
     passResult (nearbySearch nearbyOpts) @ callResults textSearch (textCalls st)"

text \<open>
  The merge as the specification words it: of the places sighted, the first with each
  identifier is kept and every later one with that identifier is discarded.
\<close>

fun firstSeen :: "NearbySearchPlace list \<Rightarrow> NearbySearchPlace list" where
  "firstSeen [] = []"
| "firstSeen (p # ps) = p # firstSeen (filter (\<lambda>q. place_id q \<noteq> place_id p) ps)"

subsection \<open>Places client: place details\<close>

text \<open>\<open>getApiKey\<close>: throws when the module-level key is unset or empty.\<close>

definition getApiKey :: "string option \<Rightarrow> error + string" where
  "getApiKey apiKey = (case apiKey of Some k \<Rightarrow> if k \<noteq> [] then Inr k else Inl GoogleApiError
                                      | None \<Rightarrow> Inl GoogleApiError)"

text \<open>
  The values a cache key is built from, and the key of a place in the details cache:
  \<open>TtlCache.generateKey({ type: 'details', placeId })\<close>.
\<close>

datatype keyval = KString string | KNumber real

definition detailsKey :: "(keyval \<Rightarrow> string) \<Rightarrow> string \<Rightarrow> string" where
  "detailsKey stringify placeId =
     generateKey stringify [(''type'', KString ''details''), (''placeId'', KString placeId)]"

text \<open>
  How the request of one \<open>getPlaceDetails\<close> call ends: a response with \<open>response.ok\<close> whose
  body parses, a response with a non-success status, or a rejection of \<open>fetch\<close> or of
  \<open>response.json()\<close>.
\<close>

datatype fetch_outcome =
    Fetch_ok PlaceDetailsResponse
  | Fetch_status int
  | Fetch_rejected

text \<open>
  The \<open>try\<close> block from the moment the request has been sent. \<open>Inl\<close> is an exception
  leaving the block, \<open>Inr\<close> the value it returns.
\<close>

definition details_response :: "fetch_outcome \<Rightarrow> error + PlaceDetailsResponse option" where
  "details_response outcome =
     (case outcome of
        Fetch_ok d \<Rightarrow> Inr (Some d)
      | Fetch_status n \<Rightarrow> Inr None
      | Fetch_rejected \<Rightarrow> Inl NetworkError)"

text \<open>
  The whole \<open>try\<close> block: \<open>getApiKey()\<close> is evaluated for the request headers before the
  request is sent.
\<close>

definition details_try :: "string option \<Rightarrow> fetch_outcome \<Rightarrow> error + PlaceDetailsResponse option" where
  "details_try apiKey outcome =
     (case getApiKey apiKey of
        Inl e \<Rightarrow> Inl e
      | Inr k \<Rightarrow> details_response outcome)"

text \<open>
  How \<open>getPlaceDetails\<close> settles once its \<open>try\<close> block has ended with \<open>r\<close> at the time
  \<open>now\<close>: the \<open>catch\<close> clause turns an exception into \<open>null\<close>; a parsed success is stored in
  the cache and returned. The first component is the value the promise settles with,
  \<open>Inl\<close> for a rejection.
\<close>

definition details_settle ::
  "(keyval \<Rightarrow> string) \<Rightarrow> int \<Rightarrow> string \<Rightarrow> error + PlaceDetailsResponse option \<Rightarrow>
   PlaceDetailsResponse TtlCache \<Rightarrow>
   (error + PlaceDetailsResponse option) \<times> PlaceDetailsResponse TtlCache" where
  "details_settle stringify now placeId r c =
     (case r of
        Inl e \<Rightarrow> (Inr None, c)
      | Inr None \<Rightarrow> (Inr None, c)
      | Inr (Some d) \<Rightarrow> (Inr (Some d), cache_set now c (detailsKey stringify placeId) d))"

text \<open>
  \<open>getPlaceDetails\<close> as one call: the cache is read at \<open>now\<close>, and on a miss the request
  ends at \<open>later\<close> with \<open>outcome\<close>.
\<close>

definition getPlaceDetails ::
  "(keyval \<Rightarrow> string) \<Rightarrow> string option \<Rightarrow> int \<Rightarrow> int \<Rightarrow> fetch_outcome \<Rightarrow> string \<Rightarrow>
   PlaceDetailsResponse TtlCache \<Rightarrow>
   (error + PlaceDetailsResponse option) \<times> PlaceDetailsResponse TtlCache" where
  "getPlaceDetails stringify apiKey now later outcome placeId c =
     (case cache_get now c (detailsKey stringify placeId) of
        (Some cached, c') \<Rightarrow> (Inr (Some cached), c')
      | (None, c') \<Rightarrow> details_settle stringify later placeId (details_try apiKey outcome) c')"

subsection \<open>Places client: the details batch\<close>

text \<open>
  \<open>getPlaceDetailsBatch\<close> hands one task per place id to the limiter of \<open>p-limit\<close> and
  awaits \<open>Promise.all\<close> of the tasks. The limiter keeps the tasks in a queue and starts
  the first queued task whenever fewer than \<open>concurrencyLimit\<close> tasks are running. A
  started task reads the cache and, on a miss with the key set, sends its request and
  stays in flight until the request ends. Which request in flight ends next, when, and
  how, is the environment's choice: the schedule \<open>sched\<close> gives, for the \<open>k\<close>-th step of
  the run, the time, the position of the request that ends, and its outcome.
\<close>

record BatchEvent =
  ev_now :: int
  ev_pick :: nat
  ev_outcome :: fetch_outcome

record BatchState =
  queue :: "string list"
  inFlight :: "string list"
  results :: "string \<rightharpoonup> PlaceDetailsResponse option"
  detailsCache :: "PlaceDetailsResponse TtlCache"

text \<open>
  The end of a task: \<open>results.set(placeId, details)\<close> with the value \<open>getPlaceDetails\<close>
  settled with. A rejection would reject the task, \<open>Promise.all\<close> and the batch.
\<close>

definition taskEnd ::
  "string \<Rightarrow> (error + PlaceDetailsResponse option) \<times> PlaceDetailsResponse TtlCache \<Rightarrow>
   BatchState \<Rightarrow> error + BatchState" where
  "taskEnd placeId settled st =
     (case settled of
        (Inl e, c) \<Rightarrow> Inl e
      | (Inr details, c) \<Rightarrow>
          Inr (st\<lparr>results := (results st)(placeId \<mapsto> details), detailsCache := c\<rparr>))"

text \<open>The limiter starts the first queued task, which runs until it ends or suspends.\<close>

definition startTask ::
  "(keyval \<Rightarrow> string) \<Rightarrow> string option \<Rightarrow> int \<Rightarrow> BatchState \<Rightarrow> error + BatchState" where
  "startTask stringify apiKey now st =
     (case queue st of
        [] \<Rightarrow> Inr st
      | placeId # rest \<Rightarrow>
          (case cache_get now (detailsCache st) (detailsKey stringify placeId) of
             (Some cached, c) \<Rightarrow> taskEnd placeId (Inr (Some cached), c) (st\<lparr>queue := rest\<rparr>)
           | (None, c) \<Rightarrow>
               (case getApiKey apiKey of
                  Inl e \<Rightarrow>
                    taskEnd placeId (details_settle stringify now placeId (Inl e) c)
                      (st\<lparr>queue := rest\<rparr>)
                | Inr k \<Rightarrow>
                    Inr (st\<lparr>queue := rest, inFlight := inFlight st @ [placeId],
                            detailsCache := c\<rparr>))))"

text \<open>The request of the task in flight that the event picks ends.\<close>

definition finishTask ::
  "(keyval \<Rightarrow> string) \<Rightarrow> BatchEvent \<Rightarrow> BatchState \<Rightarrow> error + BatchState" where
  "finishTask stringify ev st =
     (let i = ev_pick ev mod length (inFlight st);
          placeId = inFlight st ! i
      in taskEnd placeId
           (details_settle stringify (ev_now ev) placeId (details_response (ev_outcome ev))
              (detailsCache st))
           (st\<lparr>inFlight := take i (inFlight st) @ drop (Suc i) (inFlight st)\<rparr>))"

text \<open>
  The run of the tasks until \<open>Promise.all\<close> settles: with every task ended, or with the
  first rejection.
\<close>

function runBatch ::
  "(keyval \<Rightarrow> string) \<Rightarrow> string option \<Rightarrow> nat \<Rightarrow> (nat \<Rightarrow> BatchEvent) \<Rightarrow> nat \<Rightarrow> BatchState \<Rightarrow>
   error + BatchState" where
  "runBatch stringify apiKey limit sched k st =
     (if queue st \<noteq> [] \<and> length (inFlight st) < limit then
        (case startTask stringify apiKey (ev_now (sched k)) st of
           Inl e \<Rightarrow> Inl e
         | Inr st' \<Rightarrow> runBatch stringify apiKey limit sched (Suc k) st')
      else if inFlight st \<noteq> [] then
        (case finishTask stringify (sched k) st of
           Inl e \<Rightarrow> Inl e
         | Inr st' \<Rightarrow> runBatch stringify apiKey limit sched (Suc k) st')
      else Inr st)"
  by pat_completeness auto

termination runBatch
proof (relation "measure (\<lambda>(stringify, apiKey, limit, sched, k, st).
                   2 * length (queue st) + length (inFlight st))", goal_cases)
  case 1
  show ?case by simp
next
  case (2 stringify apiKey limit sched k st st')
  define now where "now = ev_now (sched k)"
  have started: "startTask stringify apiKey now st = Inr st'"
    using 2 by (simp add: now_def)
  obtain placeId rest where q: "queue st = placeId # rest"
    using 2 by (cases "queue st") auto
  obtain hit c where g: "cache_get now (detailsCache st) (detailsKey stringify placeId) = (hit, c)"
    by (cases "cache_get now (detailsCache st) (detailsKey stringify placeId)")
  have "2 * length (queue st') + length (inFlight st') < 2 * length (queue st) + length (inFlight st)"
  proof (cases hit)
    case (Some cached)
    then show ?thesis
      using started q g by (auto simp: startTask_def taskEnd_def)
  next
    case None
    show ?thesis
    proof (cases "getApiKey apiKey")
      case (Inl e)
      then show ?thesis
        using started q g None by (auto simp: startTask_def taskEnd_def details_settle_def)
    next
      case (Inr key)
      then show ?thesis
        using started q g None by (auto simp: startTask_def)
    qed
  qed
  then show ?case
    by simp
next
  case (3 stringify apiKey limit sched k st st')
  define i where "i = ev_pick (sched k) mod length (inFlight st)"
  have i: "i < length (inFlight st)"
    using 3 by (simp add: i_def)
  have "length (take i (inFlight st) @ drop (Suc i) (inFlight st)) < length (inFlight st)"
    using i by simp
  moreover have "queue st' = queue st \<and>
      inFlight st' = take i (inFlight st) @ drop (Suc i) (inFlight st)"
    using 3(3) unfolding finishTask_def Let_def i_def [symmetric]
    by (auto simp: taskEnd_def details_settle_def split: sum.splits option.splits)
  ultimately show ?case
    by simp
qed

declare runBatch.simps [simp del]

text \<open>
  \<open>getPlaceDetailsBatch\<close> with the concurrency limit \<open>limit\<close>: \<open>pLimit(limit)\<close> throws a
  \<open>TypeError\<close> unless the limit is an integer from 1 up; then every place id is queued as
  a task. The map returned is
  \<open>results\<close> of the final state.
\<close>

definition getPlaceDetailsBatch ::
  "(keyval \<Rightarrow> string) \<Rightarrow> string option \<Rightarrow> (nat \<Rightarrow> BatchEvent) \<Rightarrow> PlaceDetailsResponse TtlCache \<Rightarrow>
   string list \<Rightarrow> int \<Rightarrow> error + BatchState" where
  "getPlaceDetailsBatch stringify apiKey sched c placeIds limit =
     (if limit < 1 then Inl TypeError
      else runBatch stringify apiKey (nat limit) sched 0
             \<lparr>queue = placeIds, inFlight = [], results = Map.empty, detailsCache = c\<rparr>)"

subsection \<open>Result builder (\<open>index.ts\<close>)\<close>

text \<open>
  \<open>text.substring(0, n)\<close>: a negative end counts as \<open>0\<close>, an end beyond the string as its
  length.
\<close>

definition substring0 :: "string \<Rightarrow> int \<Rightarrow> string" where
  "substring0 s n = take (nat n) s"

definition truncateText :: "string \<Rightarrow> int \<Rightarrow> string" where
  "truncateText txt maxLength =
     (if int (length txt) \<le> maxLength then txt
      else substring0 txt (maxLength - 3) @ ''...'')"

definition PLACES_PHOTO_URL :: string where
  "PLACES_PHOTO_URL = ''https://places.googleapis.com/v1''"

text \<open>\<open>getPhotoUrl\<close> with its default sizes of 400 pixels; it throws when no key is set.\<close>

definition getPhotoUrl :: "string option \<Rightarrow> string \<Rightarrow> error + string" where
  "getPhotoUrl apiKey photoName =
     (case getApiKey apiKey of
        Inl e \<Rightarrow> Inl e
      | Inr k \<Rightarrow>
          Inr (PLACES_PHOTO_URL @ ''/'' @ photoName @
               ''/media?maxWidthPx=400&maxHeightPx=400&key='' @ k))"

text \<open>\<open>xs.map(f)\<close> for an \<open>f\<close> that may throw: the first exception ends the map.\<close>

fun map_throwing :: "('a \<Rightarrow> error + 'b) \<Rightarrow> 'a list \<Rightarrow> error + 'b list" where
  "map_throwing f [] = Inr []"
| "map_throwing f (x # xs) =
     (case f x of
        Inl e \<Rightarrow> Inl e
      | Inr y \<Rightarrow> (case map_throwing f xs of Inl e \<Rightarrow> Inl e | Inr ys \<Rightarrow> Inr (y # ys)))"

definition getPhotoUrls :: "string option \<Rightarrow> GooglePhoto list option \<Rightarrow> nat \<Rightarrow> error + string list" where
  "getPhotoUrls apiKey photos maxPhotos =
     (case photos of
        None \<Rightarrow> Inr []
      | Some ps \<Rightarrow>
          if length ps = 0 then Inr []
          else map_throwing (\<lambda>photo. getPhotoUrl apiKey (photo_name photo)) (take maxPhotos ps))"

definition buildReview :: "GoogleReview \<Rightarrow> TurfReview" where
  "buildReview review =
     \<lparr>tr_author = or_default (opt_chain (review_authorAttribution review) author_displayName)
                    ''Anonymous'',
      tr_rating = review_rating review,
      tr_relativeTime = or_default (review_relativePublishTimeDescription review) [],
      tr_text =
        truncateText
          (or_default
             (or_else (opt_chain (review_text review) lt_text)
                (opt_chain (review_originalText review) lt_text))
             [])
          240\<rparr>"

text \<open>
  \<open>buildTurfResult\<close>. \<open>details\<close> is \<open>None\<close> for \<open>null\<close>. The only exception is the one of
  \<open>getPhotoUrls\<close>.
\<close>

definition buildTurfResult ::
  "string option \<Rightarrow> NearbySearchPlace \<Rightarrow> PlaceDetailsResponse option \<Rightarrow> jsnum \<Rightarrow>
   error + TurfResult" where
  "buildTurfResult apiKey place details distanceKm =
     (let name = or_default
                   (or_else (opt_chain (opt_chain details details_displayName) lt_text)
                      (opt_chain (place_displayName place) lt_text))
                   ''Unknown'';
          address = or_default
                      (or_else (opt_chain details details_formattedAddress)
                         (place_formattedAddress place))
                      ''Address not available'';
          phone = (if truthy (opt_chain details details_internationalPhoneNumber)
                   then opt_chain details details_internationalPhoneNumber
                   else if truthy (opt_chain details details_nationalPhoneNumber)
                   then opt_chain details details_nationalPhoneNumber
                   else None);
          mapsUrl = or_default (opt_chain details details_googleMapsUri)
                      (''https://www.google.com/maps/place/?q=place_id:'' @ place_id place);
          openNow' = nullish (opt_chain (opt_chain details details_regularOpeningHours) openNow)
                       (opt_chain (place_regularOpeningHours place) openNow);
          rating = nullish (opt_chain details details_rating) (place_rating place);
          userRatingsTotal = nullish (opt_chain details details_userRatingCount)
                               (place_userRatingCount place);
          placeLat = nullish (opt_chain (opt_chain details details_location) latitude)
                       (opt_chain (place_location place) latitude);
          placeLng = nullish (opt_chain (opt_chain details details_location) longitude)
                       (opt_chain (place_location place) longitude);
          topReviews = map buildReview
                         (take 3 (case opt_chain details details_reviews of
                                    Some rs \<Rightarrow> rs
                                  | None \<Rightarrow> []))
      in case getPhotoUrls apiKey
                (nullish (opt_chain details details_photos) (place_photos place)) 3 of
           Inl e \<Rightarrow> Inl e
         | Inr photos \<Rightarrow>
             Inr \<lparr>result_placeId = place_id place,
                  result_name = name,
                  result_distanceKm = distanceKm,
                  result_address = address,
                  result_mapsUrl = mapsUrl,
                  result_phone = phone,
                  result_openNow = openNow',
                  result_rating = rating,
                  result_userRatingsTotal = userRatingsTotal,
                  result_photos = photos,
                  result_topReviews = topReviews,
                  result_lat = placeLat,
                  result_lng = placeLng\<rparr>)"

text \<open>
  The field policy as the specification words it: the detail record's value when it is
  present, otherwise the summary record's value when it is present, otherwise the
  sentinel (\<open>None\<close> where the sentinel is \<open>null\<close>).
\<close>

definition detail_wins :: "'a option \<Rightarrow> 'a option \<Rightarrow> 'a \<Rightarrow> 'a" where
  "detail_wins detailValue summaryValue sentinel =
     (case detailValue of
        Some v \<Rightarrow> v
      | None \<Rightarrow> (case summaryValue of Some v \<Rightarrow> v | None \<Rightarrow> sentinel))"

definition detail_wins_nullable :: "'a option \<Rightarrow> 'a option \<Rightarrow> 'a option" where
  "detail_wins_nullable detailValue summaryValue =
     (case detailValue of Some v \<Rightarrow> Some v | None \<Rightarrow> summaryValue)"

text \<open>A string that is present and not empty; an empty string counts as absent.\<close>

definition nonempty :: "string option \<Rightarrow> string option" where
  "nonempty a = (if truthy a then a else None)"

text \<open>A detail record with an identifier, a display name and a rating, every other field absent.\<close>

definition mkDetails :: "string \<Rightarrow> string option \<Rightarrow> real option \<Rightarrow> PlaceDetailsResponse" where
  "mkDetails i n r =
     \<lparr>details_id = i,
      details_displayName = (case n of Some s \<Rightarrow> Some \<lparr>lt_text = Some s\<rparr> | None \<Rightarrow> None),
      details_formattedAddress = None, details_nationalPhoneNumber = None,
      details_internationalPhoneNumber = None, details_location = None, details_rating = r,
      details_userRatingCount = None, details_photos = None, details_reviews = None,
      details_regularOpeningHours = None, details_googleMapsUri = None,
      details_websiteUri = None, details_businessStatus = None\<rparr>"

subsection \<open>The distance step of the command-line front end (\<open>index.ts\<close>)\<close>

text \<open>
  \<open>parseCliArgs\<close> rejects the radius with a \<open>ValidationError\<close> when
  \<open>radiusKm <= 0 || radiusKm > 50\<close>.
\<close>

definition radiusRejected :: "jsnum \<Rightarrow> bool" where
  "radiusRejected radiusKm = (js_le radiusKm (Num 0) \<or> js_gt radiusKm (Num 50))"

text \<open>
  The callback of \<open>places.map\<close>: the place with its distance from the query point. The
  two functions of \<open>distance.ts\<close> it calls are the parameters \<open>haversineDistance\<close> and
  \<open>roundDistance\<close>.
\<close>

definition withDistance ::
  "(LatLng \<Rightarrow> LatLng \<Rightarrow> jsnum) \<Rightarrow> (jsnum \<Rightarrow> jsnum) \<Rightarrow> real \<Rightarrow> real \<Rightarrow> NearbySearchPlace \<Rightarrow>
   NearbySearchPlace \<times> jsnum" where
  "withDistance haversineDistance roundDistance qlat qlng place =
     (let placeLat = opt_chain (place_location place) latitude;
          placeLng = opt_chain (place_location place) longitude
      in if \<not> truthy_num placeLat \<or> \<not> truthy_num placeLng then (place, Infinity)
         else (case (placeLat, placeLng) of
                 (Some la, Some lo) \<Rightarrow>
                   (place,
                    roundDistance
                      (haversineDistance \<lparr>lat = qlat, lng = qlng\<rparr> \<lparr>lat = la, lng = lo\<rparr>))
               | _ \<Rightarrow> (place, Infinity)))"

text \<open>
  The comparator \<open>(a, b) => a.distanceKm - b.distanceKm\<close> is positive: \<open>a\<close> goes behind
  \<open>b\<close>. A difference that is \<open>NaN\<close> counts as zero. The sort is stable.
\<close>

fun comparator_positive :: "jsnum \<Rightarrow> jsnum \<Rightarrow> bool" where
  "comparator_positive (Num a) (Num b) = (a - b > 0)"
| "comparator_positive Infinity (Num b) = True"
| "comparator_positive a b = False"

fun insertByDistance ::
  "NearbySearchPlace \<times> jsnum \<Rightarrow> (NearbySearchPlace \<times> jsnum) list \<Rightarrow> (NearbySearchPlace \<times> jsnum) list" where
  "insertByDistance x [] = [x]"
| "insertByDistance x (y # ys) =
     (if comparator_positive (snd x) (snd y) then y # insertByDistance x ys else x # y # ys)"

definition sortByDistanceKm :: "(NearbySearchPlace \<times> jsnum) list \<Rightarrow> (NearbySearchPlace \<times> jsnum) list" where
  "sortByDistanceKm xs = foldr insertByDistance xs []"

text \<open>\<open>placesWithDistance\<close>: map, then the radius filter, then the sort.\<close>

definition placesWithDistance ::
  "(LatLng \<Rightarrow> LatLng \<Rightarrow> jsnum) \<Rightarrow> (jsnum \<Rightarrow> jsnum) \<Rightarrow> real \<Rightarrow> real \<Rightarrow> jsnum \<Rightarrow>
   NearbySearchPlace list \<Rightarrow> (NearbySearchPlace \<times> jsnum) list" where
  "placesWithDistance haversineDistance roundDistance qlat qlng radiusKm places =
     sortByDistanceKm
       (filter (\<lambda>p. js_le (snd p) radiusKm)
          (map (withDistance haversineDistance roundDistance qlat qlng) places))"

subsection \<open>The early stop as a property of the calls of a run\<close>

text \<open>
  Of two text searches issued one after the other, the earlier one threw or the later one
  was issued while \<open>allPlaces.length\<close> was below \<open>maxResults\<close>.
\<close>

definition stopsAfterSuccess :: "text_stub \<Rightarrow> int \<Rightarrow> (TextSearchOptions \<times> nat) list \<Rightarrow> bool" where
  "stopsAfterSuccess textSearch maxRes calls =
     (\<forall>i. Suc i < length calls \<longrightarrow>
        isl (textSearch (fst (calls ! i))) \<or> int (snd (calls ! Suc i)) < maxRes)"

text \<open>
  The invariant of a run whose nearby pass returned \<open>base\<close>: \<open>seenPlaceIds\<close> holds the
  identifiers of \<open>allPlaces\<close>; \<open>allPlaces\<close> holds the first-seen places of everything the
  passes returned so far; and the number recorded with each text search is the number of
  first-seen places of what the passes before it returned.
\<close>

definition runInvariant :: "text_stub \<Rightarrow> NearbySearchPlace list \<Rightarrow> SearchState \<Rightarrow> bool" where
  "runInvariant textSearch base st =
     (seenPlaceIds st = place_id ` set (allPlaces st) \<and>
      allPlaces st = firstSeen (base @ callResults textSearch (textCalls st)) \<and>
      (\<forall>i < length (textCalls st).
         snd (textCalls st ! i) =
         length (firstSeen (base @ callResults textSearch (take i (textCalls st))))))"

subsection \<open>The exclusion rule in the specification's words, and example places\<close>

text \<open>
  The display name of a place (empty when the provider sent none), its type codes, and
  the rule: the name contains one of the exclusion keywords, case ignored, or the type
  codes meet the exclusion type codes.
\<close>

definition displayNameOf :: "NearbySearchPlace \<Rightarrow> string" where
  "displayNameOf place =
     (case opt_chain (place_displayName place) lt_text of Some s \<Rightarrow> s | None \<Rightarrow> [])"

definition typesOf :: "NearbySearchPlace \<Rightarrow> string list" where
  "typesOf place = (case place_types place of Some ts \<Rightarrow> ts | None \<Rightarrow> [])"

definition contains_ci :: "string \<Rightarrow> string \<Rightarrow> bool" where
  "contains_ci s keyword = sublist (toLowerCase keyword) (toLowerCase s)"

definition excluded :: "NearbySearchPlace \<Rightarrow> bool" where
  "excluded place =
     ((\<exists>keyword \<in> set EXCLUDE_KEYWORDS. contains_ci (displayNameOf place) keyword) \<or>
      set (typesOf place) \<inter> set excludeTypes \<noteq> {})"

text \<open>A place with an identifier, a display name and type codes, every other field absent.\<close>

definition mkPlace :: "string \<Rightarrow> string option \<Rightarrow> string list option \<Rightarrow> NearbySearchPlace" where
  "mkPlace i n ts =
     \<lparr>place_id = i,
      place_displayName = (case n of Some s \<Rightarrow> Some \<lparr>lt_text = Some s\<rparr> | None \<Rightarrow> None),
      place_formattedAddress = None, place_location = None, place_rating = None,
      place_userRatingCount = None, place_photos = None, place_regularOpeningHours = None,
      place_businessStatus = None, place_types = ts\<rparr>"

text \<open>
  Example passes: the nearby pass finds the places \<open>a\<close> and \<open>b\<close>; the text search for
  \<open>turf\<close> finds another copy of \<open>a\<close>, with other field contents, and the place \<open>c\<close>; every
  other text search finds the place \<open>d\<close>.
\<close>

definition example_nearby :: nearby_stub where
  "example_nearby opts =
     Inr [mkPlace ''a'' (Some ''Arena One'') None, mkPlace ''b'' (Some ''Turf B'') None]"

definition example_text :: text_stub where
  "example_text opts =
     (if ts_textQuery opts = ''turf''
      then Inr [mkPlace ''a'' (Some ''Arena Copy'') (Some [''gym'']),
                mkPlace ''c'' (Some ''Turf C'') None]
      else Inr [mkPlace ''d'' (Some ''Turf D'') None])"

text \<open>
  An example environment for the batch: every request is rejected; the cache is empty;
  \<open>JSON.stringify\<close> is replaced by a function that prints a string as it is.
\<close>

definition example_sched :: "nat \<Rightarrow> BatchEvent" where
  "example_sched k = \<lparr>ev_now = 0, ev_pick = 0, ev_outcome = Fetch_rejected\<rparr>"

definition example_cache :: "PlaceDetailsResponse TtlCache" where
  "example_cache = \<lparr>entries = Map.empty, ttlMs = cacheTtlMs DEFAULT_CONFIG\<rparr>"

definition example_stringify :: "keyval \<Rightarrow> string" where
  "example_stringify v = (case v of KString s \<Rightarrow> s | KNumber x \<Rightarrow> [])"

section \<open>Properties\<close>

subsection \<open>Review text truncation\<close>

text \<open>
  Claim C5. For every review text: if it is longer than 240 characters, the truncation is
  exactly 240 characters long and ends in the ellipsis marker \<open>...\<close> (it is the first 237
  characters followed by the marker); if it is at most 240 characters long, it is
  returned unchanged. So the text of a review in a result is never longer than 240
  characters.
\<close>

theorem truncateText_240:
  "(length txt > 240 \<longrightarrow>
      length (truncateText txt 240) = 240 \<and> suffix ''...'' (truncateText txt 240) \<and>
      truncateText txt 240 = take 237 txt @ ''...'') \<and>
   (length txt \<le> 240 \<longrightarrow> truncateText txt 240 = txt) \<and>
   length (tr_text (buildReview review)) \<le> 240"
  by (simp add: truncateText_def substring0_def suffix_def buildReview_def)

theorem truncateText_240_witness:
  "length (replicate 300 (CHR ''a'')) > 240 \<and>
   length (truncateText (replicate 300 (CHR ''a'')) 240) = 240 \<and>
   suffix ''...'' (truncateText (replicate 300 (CHR ''a'')) 240) \<and>
   length (replicate 100 (CHR ''b'')) \<le> 240 \<and>
   truncateText (replicate 100 (CHR ''b'')) 240 = replicate 100 (CHR ''b'')"
  using truncateText_240 [of "replicate 300 (CHR ''a'')"]
        truncateText_240 [of "replicate 100 (CHR ''b'')"]
  by (simp add: suffix_def)

subsection \<open>Cache key\<close>

lemma sorted_keys_eq:
  assumes "distinct (map fst xs)" "distinct (map fst ys)" "set xs = set ys"
  shows "sort (map fst xs) = sort (map fst ys)"
proof (rule sorted_distinct_set_unique)
  show "set (sort (map fst xs)) = set (sort (map fst ys))"
    using assms(3) by simp
qed (simp_all add: assms)

lemma keyEntry_eq:
  assumes "distinct (map fst xs)" "distinct (map fst ys)" "set xs = set ys"
  shows "keyEntry stringify xs = keyEntry stringify ys"
proof -
  have "map_of xs = map_of ys"
    using assms by (simp add: map_of_inject_set)
  then show ?thesis
    by (simp add: keyEntry_def fun_eq_iff)
qed

text \<open>
  Claim C8. Two parameter records with the same key-value pairs, in whatever order, have
  the same cache key: the key lists the entries in the sorted order of the keys. In
  particular \<open>generateKey({a: 1, b: 2})\<close> equals \<open>generateKey({b: 2, a: 1})\<close>, and both are
  \<open>a=\<close>, the first value, \<open>&b=\<close>, the second value.
\<close>

theorem generateKey_order_independent:
  "(distinct (map fst xs) \<and> distinct (map fst ys) \<and> set xs = set ys \<longrightarrow>
      generateKey stringify xs = generateKey stringify ys) \<and>
   generateKey stringify [(''a'', one), (''b'', two)] =
     generateKey stringify [(''b'', two), (''a'', one)] \<and>
   generateKey stringify [(''b'', two), (''a'', one)] =
     ''a='' @ stringify one @ ''&b='' @ stringify two"
proof (intro conjI impI)
  assume "distinct (map fst xs) \<and> distinct (map fst ys) \<and> set xs = set ys"
  then show "generateKey stringify xs = generateKey stringify ys"
    by (simp add: generateKey_def sorted_keys_eq [of xs ys] keyEntry_eq [of xs ys])
next
  show "generateKey stringify [(''a'', one), (''b'', two)] =
        generateKey stringify [(''b'', two), (''a'', one)]"
    by (simp add: generateKey_def keyEntry_def)
next
  show "generateKey stringify [(''b'', two), (''a'', one)] =
        ''a='' @ stringify one @ ''&b='' @ stringify two"
    by (simp add: generateKey_def keyEntry_def)
qed

theorem generateKey_order_independent_witness:
  "distinct (map fst [(''type'', ''nearby''), (''lat'', ''12.9'')]) \<and>
   distinct (map fst [(''lat'', ''12.9''), (''type'', ''nearby'')]) \<and>
   set [(''type'', ''nearby''), (''lat'', ''12.9'')] =
     set [(''lat'', ''12.9''), (''type'', ''nearby'')] \<and>
   generateKey (\<lambda>v. v) [(''type'', ''nearby''), (''lat'', ''12.9'')] =
     generateKey (\<lambda>v. v) [(''lat'', ''12.9''), (''type'', ''nearby'')] \<and>
   generateKey (\<lambda>v. v) [(''lat'', ''12.9''), (''type'', ''nearby'')] = ''lat=12.9&type=nearby''"
proof -
  have d1: "distinct (map fst [(''type'', ''nearby''), (''lat'', ''12.9'')])"
    by simp
  have d2: "distinct (map fst [(''lat'', ''12.9''), (''type'', ''nearby'')])"
    by simp
  have s: "set [(''type'', ''nearby''), (''lat'', ''12.9'')] =
           set [(''lat'', ''12.9''), (''type'', ''nearby'')]"
    by auto
  have k: "generateKey (\<lambda>v. v) [(''lat'', ''12.9''), (''type'', ''nearby'')] =
           ''lat=12.9&type=nearby''"
    by (simp add: generateKey_def keyEntry_def)
  show ?thesis
    using generateKey_order_independent
            [of "[(''type'', ''nearby''), (''lat'', ''12.9'')]"
                "[(''lat'', ''12.9''), (''type'', ''nearby'')]" "\<lambda>v. v"]
          d1 d2 s k
    by blast
qed

subsection \<open>Search requests\<close>

lemma nearbySearch_radius_capped:
  "radius (nb_circle (nearbySearch_requestBody options)) = min (ns_radiusMeters options) 50000"
  by (simp add: nearbySearch_requestBody_def)

lemma textSearch_radius_capped:
  "radius (tb_circle (textSearch_requestBody options)) = min (ts_radiusMeters options) 50000"
  by (simp add: textSearch_requestBody_def)

lemma searchTurfs_request_counts:
  assumes "1 \<le> maxRes"
  shows "nb_maxResultCount (nearbySearch_requestBody (nearbyOptions qlat qlng r maxRes)) = min 20 maxRes"
    and "tb_maxResultCount (textSearch_requestBody (textOptions qlat qlng r maxRes k)) = min 20 maxRes"
  using assms
  by (auto simp add: nearbySearch_requestBody_def textSearch_requestBody_def nearbyOptions_def
      textOptions_def count_or_default_def min_def)

lemma example_calls_0:
  "textCalls (searchTurfs_collect example_nearby example_text 12.9121 77.6446 5 None 0) =
     [(textOptions 12.9121 77.6446 5000 0 ''turf'', 2)]"
  by (simp add: searchTurfs_collect_def nearbyPass_def buildKeywords_def DEFAULT_TURF_KEYWORDS_def
      example_nearby_def example_text_def mkPlace_def textOptions_def Let_def)

text \<open>
  Claim C1, at the inputs where the code departs from it. Both requests cap the radius at
  50000 metres (the two lemmas above), but neither caps the result count: a nearby search
  called without \<open>maxResultCount\<close> requests \<open>DEFAULT_CONFIG.maxResults = 30\<close> results, a
  text search called with a count of 25 requests 25, and for \<open>maxResults = 0\<close> the nearby
  search and the text search that \<open>searchTurfs\<close> issues request 30 results each.
\<close>

theorem search_request_count_uncapped:
  "nb_maxResultCount
     (nearbySearch_requestBody
        \<lparr>ns_lat = 12.9121, ns_lng = 77.6446, ns_radiusMeters = 5000, ns_includedTypes = None,
         ns_keyword = None, ns_maxResultCount = None\<rparr>) = 30 \<and>
   tb_maxResultCount
     (textSearch_requestBody
        \<lparr>ts_textQuery = ''turf'', ts_lat = 12.9121, ts_lng = 77.6446, ts_radiusMeters = 5000,
         ts_maxResultCount = Some 25\<rparr>) = 25 \<and>
   nb_maxResultCount
     (nearbySearch_requestBody (nearbyOptions 12.9121 77.6446 (5 * 1000) 0)) = 30 \<and>
   map (\<lambda>call. tb_maxResultCount (textSearch_requestBody (fst call)))
     (textCalls (searchTurfs_collect example_nearby example_text 12.9121 77.6446 5 None 0)) = [30]"
  unfolding example_calls_0
  by (simp add: nearbySearch_requestBody_def textSearch_requestBody_def
      textOptions_def nearbyOptions_def count_or_default_def DEFAULT_CONFIG_def)

subsection \<open>Post-hoc filter\<close>

lemma str_includes_sublist: "str_includes s keyword = sublist keyword s"
  by (induction s) (simp_all add: sublist_Cons_right)

lemma nameHasKeyword_iff:
  "nameHasKeyword name ks = (\<exists>keyword \<in> set ks. sublist keyword name)"
  by (induction ks) (simp_all add: str_includes_sublist)

lemma hasExcludedType_iff: "hasExcludedType types ts = (set types \<inter> set ts \<noteq> {})"
  by (induction ts) auto

lemma lower_keywords: "map toLowerCase EXCLUDE_KEYWORDS = EXCLUDE_KEYWORDS"
  by (simp add: EXCLUDE_KEYWORDS_def toLowerCase_def lower_char_def)

lemma lower_keyword: "keyword \<in> set EXCLUDE_KEYWORDS \<Longrightarrow> toLowerCase keyword = keyword"
  using lower_keywords by (metis map_idI [of EXCLUDE_KEYWORDS toLowerCase] list.map_id map_eq_conv id_apply)

lemma placeName_displayName: "placeName place = toLowerCase (displayNameOf place)"
  by (simp add: placeName_def displayNameOf_def or_default_def split: option.split)

lemma keepPlace_iff: "keepPlace place = (\<not> excluded place)"
proof -
  have "nameHasKeyword (placeName place) EXCLUDE_KEYWORDS =
        (\<exists>keyword \<in> set EXCLUDE_KEYWORDS. contains_ci (displayNameOf place) keyword)"
    by (simp add: nameHasKeyword_iff placeName_displayName contains_ci_def lower_keyword)
  moreover have "hasExcludedType (typesOf place) excludeTypes =
        (set (typesOf place) \<inter> set excludeTypes \<noteq> {})"
    by (rule hasExcludedType_iff)
  ultimately show ?thesis
    unfolding keepPlace_def excluded_def Let_def typesOf_def [symmetric] by auto
qed

lemma bowling_excluded: "displayNameOf p = ''XYZ Bowling Alley'' \<Longrightarrow> \<not> keepPlace p"
  by (simp add: keepPlace_def placeName_displayName toLowerCase_def lower_char_def
      EXCLUDE_KEYWORDS_def)

lemma restaurant_excluded: "''restaurant'' \<in> set (typesOf p) \<Longrightarrow> \<not> keepPlace p"
  unfolding keepPlace_iff excluded_def by (auto simp: excludeTypes_def)

text \<open>
  Claim C4. The post-hoc filter removes exactly the places whose display name contains,
  case ignored, one of the exclusion keywords, or whose type codes meet the exclusion
  type codes; either match alone removes the place. A place named \<open>XYZ Bowling Alley\<close> is
  removed whatever its type codes, and a place of type \<open>restaurant\<close> whatever its name.
\<close>

theorem filterTurfResults_exclusion:
  "filterTurfResults places = filter (\<lambda>p. \<not> excluded p) places \<and>
   (displayNameOf p = ''XYZ Bowling Alley'' \<longrightarrow> p \<notin> set (filterTurfResults places)) \<and>
   (''restaurant'' \<in> set (typesOf p) \<longrightarrow> p \<notin> set (filterTurfResults places))"
proof (intro conjI impI)
  have "keepPlace = (\<lambda>p. \<not> excluded p)"
    by (simp add: fun_eq_iff keepPlace_iff)
  then show "filterTurfResults places = filter (\<lambda>p. \<not> excluded p) places"
    by (simp add: filterTurfResults_def)
next
  assume "displayNameOf p = ''XYZ Bowling Alley''"
  then show "p \<notin> set (filterTurfResults places)"
    by (simp add: filterTurfResults_def bowling_excluded)
next
  assume "''restaurant'' \<in> set (typesOf p)"
  then show "p \<notin> set (filterTurfResults places)"
    by (simp add: filterTurfResults_def restaurant_excluded)
qed

lemma keep_city: "keepPlace (mkPlace ''3'' (Some ''City Turf'') (Some [''sports_complex'']))"
  by (simp add: keepPlace_def placeName_def mkPlace_def or_default_def toLowerCase_def
      lower_char_def EXCLUDE_KEYWORDS_def excludeTypes_def)

theorem filterTurfResults_exclusion_witness:
  "displayNameOf (mkPlace ''1'' (Some ''XYZ Bowling Alley'') (Some [''stadium''])) =
     ''XYZ Bowling Alley'' \<and>
   mkPlace ''1'' (Some ''XYZ Bowling Alley'') (Some [''stadium'']) \<notin>
     set (filterTurfResults
            [mkPlace ''1'' (Some ''XYZ Bowling Alley'') (Some [''stadium'']),
             mkPlace ''2'' (Some ''Green Turf'') (Some [''restaurant'']),
             mkPlace ''3'' (Some ''City Turf'') (Some [''sports_complex''])]) \<and>
   ''restaurant'' \<in> set (typesOf (mkPlace ''2'' (Some ''Green Turf'') (Some [''restaurant'']))) \<and>
   mkPlace ''2'' (Some ''Green Turf'') (Some [''restaurant'']) \<notin>
     set (filterTurfResults
            [mkPlace ''1'' (Some ''XYZ Bowling Alley'') (Some [''stadium'']),
             mkPlace ''2'' (Some ''Green Turf'') (Some [''restaurant'']),
             mkPlace ''3'' (Some ''City Turf'') (Some [''sports_complex''])]) \<and>
   mkPlace ''3'' (Some ''City Turf'') (Some [''sports_complex'']) \<in>
     set (filterTurfResults
            [mkPlace ''1'' (Some ''XYZ Bowling Alley'') (Some [''stadium'']),
             mkPlace ''2'' (Some ''Green Turf'') (Some [''restaurant'']),
             mkPlace ''3'' (Some ''City Turf'') (Some [''sports_complex''])])"
proof -
  let ?a = "mkPlace ''1'' (Some ''XYZ Bowling Alley'') (Some [''stadium''])"
  let ?b = "mkPlace ''2'' (Some ''Green Turf'') (Some [''restaurant''])"
  let ?c = "mkPlace ''3'' (Some ''City Turf'') (Some [''sports_complex''])"
  have n: "displayNameOf ?a = ''XYZ Bowling Alley''"
    by (simp add: displayNameOf_def mkPlace_def)
  have t: "''restaurant'' \<in> set (typesOf ?b)"
    by (simp add: typesOf_def mkPlace_def)
  have c: "?c \<in> set (filterTurfResults [?a, ?b, ?c])"
    using keep_city by (simp add: filterTurfResults_def)
  show ?thesis
    using filterTurfResults_exclusion [of "[?a, ?b, ?c]" ?a]
          filterTurfResults_exclusion [of "[?a, ?b, ?c]" ?b] n t c
    by blast
qed

subsection \<open>Search aggregation\<close>

lemma firstSeen_ids: "place_id ` set (firstSeen xs) = place_id ` set xs"
  by (induction xs rule: firstSeen.induct) auto

lemma firstSeen_subset: "set (firstSeen xs) \<subseteq> set xs"
  by (induction xs rule: firstSeen.induct) auto

lemma firstSeen_distinct: "distinct (map place_id (firstSeen xs))"
proof (induction xs rule: firstSeen.induct)
  case 1
  show ?case by simp
next
  case (2 p ps)
  have "place_id ` set (firstSeen (filter (\<lambda>q. place_id q \<noteq> place_id p) ps)) =
        place_id ` set (filter (\<lambda>q. place_id q \<noteq> place_id p) ps)"
    by (rule firstSeen_ids)
  then have "place_id p \<notin> place_id ` set (firstSeen (filter (\<lambda>q. place_id q \<noteq> place_id p) ps))"
    by auto
  then show ?case
    using 2 by simp
qed

lemma firstSeen_snoc:
  "firstSeen (xs @ [p]) =
     (if place_id p \<in> place_id ` set xs then firstSeen xs else firstSeen xs @ [p])"
proof (induction xs rule: firstSeen.induct)
  case 1
  show ?case by simp
next
  case (2 x xs)
  show ?case
  proof (cases "place_id p = place_id x")
    case True
    then show ?thesis by simp
  next
    case False
    have "(place_id p \<in> place_id ` set (filter (\<lambda>q. place_id q \<noteq> place_id x) xs)) =
          (place_id p \<in> place_id ` set xs)"
      using False by auto
    then show ?thesis
      using False 2 by simp
  qed
qed

lemma firstSeen_find:
  "p \<in> set (firstSeen xs) \<Longrightarrow> find (\<lambda>q. place_id q = place_id p) xs = Some p"
proof (induction xs rule: firstSeen.induct)
  case 1
  then show ?case by simp
next
  case (2 x xs)
  show ?case
  proof (cases "p = x")
    case True
    then show ?thesis by simp
  next
    case False
    then have mem: "p \<in> set (firstSeen (filter (\<lambda>q. place_id q \<noteq> place_id x) xs))"
      using 2(2) by simp
    then have "p \<in> set (filter (\<lambda>q. place_id q \<noteq> place_id x) xs)"
      using firstSeen_subset by blast
    then have ne: "place_id p \<noteq> place_id x"
      by simp
    have "find (\<lambda>q. place_id q = place_id p) (filter (\<lambda>q. place_id q \<noteq> place_id x) xs) =
          find (\<lambda>q. place_id q = place_id p) xs"
      using ne by (induction xs) auto
    then show ?thesis
      using 2(1) [OF mem] ne by simp
  qed
qed

text \<open>The invariant of a run: the state holds the first-seen places of the sightings \<open>S\<close>.\<close>

lemma addUnique_textCalls: "textCalls (addUnique ps st) = textCalls st"
  by (induction ps arbitrary: st) simp_all

lemma addUnique_firstSeen:
  assumes "seenPlaceIds st = place_id ` set (allPlaces st)" "allPlaces st = firstSeen S"
  shows "seenPlaceIds (addUnique ps st) = place_id ` set (allPlaces (addUnique ps st)) \<and>
         allPlaces (addUnique ps st) = firstSeen (S @ ps)"
  using assms
proof (induction ps arbitrary: st S)
  case Nil
  then show ?case by simp
next
  case (Cons p ps)
  have ids: "place_id ` set S = seenPlaceIds st"
    using Cons.prems firstSeen_ids [of S] by simp
  show ?case
  proof (cases "place_id p \<in> seenPlaceIds st")
    case True
    have "allPlaces st = firstSeen (S @ [p])"
      using True ids Cons.prems(2) by (simp add: firstSeen_snoc)
    then show ?thesis
      using Cons.IH [of st "S @ [p]"] Cons.prems(1) True by simp
  next
    case False
    define st' where "st' = st\<lparr>seenPlaceIds := insert (place_id p) (seenPlaceIds st),
                                allPlaces := allPlaces st @ [p]\<rparr>"
    have a: "seenPlaceIds st' = place_id ` set (allPlaces st')"
      using Cons.prems(1) by (simp add: st'_def)
    have b: "allPlaces st' = firstSeen (S @ [p])"
      using False ids Cons.prems(2) by (simp add: firstSeen_snoc st'_def)
    show ?thesis
      using Cons.IH [OF a b] False by (simp add: st'_def)
  qed
qed


lemma callResults_snoc:
  "callResults textSearch (calls @ [(opts, n)]) =
     callResults textSearch calls @ passResult (textSearch opts)"
  by (simp add: callResults_def)

lemma runInvariant_call:
  assumes "runInvariant textSearch base st"
  shows "\<forall>i < length (textCalls st @ [(opts, length (allPlaces st))]).
           snd ((textCalls st @ [(opts, length (allPlaces st))]) ! i) =
           length (firstSeen (base @ callResults textSearch
                                      (take i (textCalls st @ [(opts, length (allPlaces st))]))))"
proof (intro allI impI)
  fix i
  assume i: "i < length (textCalls st @ [(opts, length (allPlaces st))])"
  show "snd ((textCalls st @ [(opts, length (allPlaces st))]) ! i) =
        length (firstSeen (base @ callResults textSearch
                                   (take i (textCalls st @ [(opts, length (allPlaces st))]))))"
  proof (cases "i < length (textCalls st)")
    case True
    then show ?thesis
      using assms by (simp add: runInvariant_def nth_append)
  next
    case False
    then have "i = length (textCalls st)"
      using i by simp
    then show ?thesis
      using assms by (simp add: runInvariant_def nth_append)
  qed
qed

lemma runInvariant_threw:
  assumes "runInvariant textSearch base st" "textSearch opts = Inl e"
  shows "runInvariant textSearch base
           (st\<lparr>textCalls := textCalls st @ [(opts, length (allPlaces st))]\<rparr>)"
  using assms runInvariant_call [OF assms(1), of opts]
  by (simp add: runInvariant_def callResults_snoc passResult_def)

lemma runInvariant_returned:
  assumes "runInvariant textSearch base st" "textSearch opts = Inr places"
  shows "runInvariant textSearch base
           (addUnique places (st\<lparr>textCalls := textCalls st @ [(opts, length (allPlaces st))]\<rparr>))"
proof -
  define st1 where "st1 = st\<lparr>textCalls := textCalls st @ [(opts, length (allPlaces st))]\<rparr>"
  have seen1: "seenPlaceIds st1 = place_id ` set (allPlaces st1)"
    using assms(1) by (simp add: runInvariant_def st1_def)
  have all1: "allPlaces st1 = firstSeen (base @ callResults textSearch (textCalls st))"
    using assms(1) by (simp add: runInvariant_def st1_def)
  have "seenPlaceIds (addUnique places st1) = place_id ` set (allPlaces (addUnique places st1)) \<and>
        allPlaces (addUnique places st1) =
        firstSeen ((base @ callResults textSearch (textCalls st)) @ places)"
    using seen1 all1 by (rule addUnique_firstSeen)
  moreover have "textCalls (addUnique places st1) = textCalls st @ [(opts, length (allPlaces st))]"
    by (simp add: addUnique_textCalls st1_def)
  ultimately show ?thesis
    using runInvariant_call [OF assms(1), of opts] assms(2)
    unfolding st1_def [symmetric]
    by (simp add: runInvariant_def callResults_snoc passResult_def)
qed

lemma keywordLoop_invariant:
  assumes "runInvariant textSearch base st"
  shows "runInvariant textSearch base (keywordLoop textSearch qlat qlng r maxRes ks st)"
  using assms
proof (induction ks arbitrary: st)
  case Nil
  then show ?case by simp
next
  case (Cons k ks)
  define opts where "opts = textOptions qlat qlng r maxRes k"
  define st1 where "st1 = st\<lparr>textCalls := textCalls st @ [(opts, length (allPlaces st))]\<rparr>"
  show ?case
  proof (cases "textSearch opts")
    case (Inl e)
    have "runInvariant textSearch base st1"
      unfolding st1_def using Cons.prems Inl by (rule runInvariant_threw)
    then show ?thesis
      using Cons.IH [of st1] Inl
      by (simp add: opts_def [symmetric] st1_def [symmetric] Let_def)
  next
    case (Inr places)
    have "runInvariant textSearch base (addUnique places st1)"
      unfolding st1_def using Cons.prems Inr by (rule runInvariant_returned)
    then show ?thesis
      using Cons.IH [of "addUnique places st1"] Inr
      by (simp add: opts_def [symmetric] st1_def [symmetric] Let_def)
  qed
qed

lemma nearbyPass_invariant:
  "runInvariant textSearch (passResult (nearbySearch opts))
     (nearbyPass nearbySearch opts \<lparr>seenPlaceIds = {}, allPlaces = [], textCalls = []\<rparr>)"
proof (cases "nearbySearch opts")
  case (Inl e)
  then show ?thesis
    by (simp add: runInvariant_def nearbyPass_def passResult_def callResults_def)
next
  case (Inr places)
  have "seenPlaceIds (addUnique places \<lparr>seenPlaceIds = {}, allPlaces = [], textCalls = []\<rparr>) =
          place_id ` set (allPlaces (addUnique places \<lparr>seenPlaceIds = {}, allPlaces = [], textCalls = []\<rparr>)) \<and>
        allPlaces (addUnique places \<lparr>seenPlaceIds = {}, allPlaces = [], textCalls = []\<rparr>) =
          firstSeen ([] @ places)"
    by (rule addUnique_firstSeen) simp_all
  then show ?thesis
    using Inr
    by (simp add: runInvariant_def nearbyPass_def passResult_def callResults_def addUnique_textCalls)
qed

lemma searchTurfs_collect_invariant:
  "runInvariant textSearch
     (passResult (nearbySearch (nearbyOptions qlat qlng (radiusKm * 1000) maxRes)))
     (searchTurfs_collect nearbySearch textSearch qlat qlng radiusKm customKeyword maxRes)"
  unfolding searchTurfs_collect_def Let_def
  by (rule keywordLoop_invariant [OF nearbyPass_invariant])

lemma stopsAfterSuccess_snoc:
  assumes "stopsAfterSuccess textSearch maxRes calls"
    and "calls \<noteq> [] \<longrightarrow> isl (textSearch (fst (last calls))) \<or> int n < maxRes"
  shows "stopsAfterSuccess textSearch maxRes (calls @ [(opts, n)])"
  unfolding stopsAfterSuccess_def
proof (intro allI impI)
  fix i
  assume i: "Suc i < length (calls @ [(opts, n)])"
  show "isl (textSearch (fst ((calls @ [(opts, n)]) ! i))) \<or>
        int (snd ((calls @ [(opts, n)]) ! Suc i)) < maxRes"
  proof (cases "Suc i < length calls")
    case True
    then show ?thesis
      using assms(1) by (simp add: stopsAfterSuccess_def nth_append)
  next
    case False
    then have eq: "Suc i = length calls"
      using i by simp
    then have ne: "calls \<noteq> []"
      by auto
    have "last calls = calls ! (length calls - 1)"
      by (rule last_conv_nth [OF ne])
    then have "calls ! i = last calls"
      using eq [symmetric] by simp
    then show ?thesis
      using assms(2) eq ne by (simp add: nth_append)
  qed
qed

lemma keywordLoop_stops:
  assumes "stopsAfterSuccess textSearch maxRes (textCalls st)"
    and "textCalls st \<noteq> [] \<longrightarrow>
         isl (textSearch (fst (last (textCalls st)))) \<or> int (length (allPlaces st)) < maxRes"
  shows "stopsAfterSuccess textSearch maxRes
           (textCalls (keywordLoop textSearch qlat qlng r maxRes ks st))"
  using assms
proof (induction ks arbitrary: st)
  case Nil
  then show ?case by simp
next
  case (Cons k ks)
  define opts where "opts = textOptions qlat qlng r maxRes k"
  define st1 where "st1 = st\<lparr>textCalls := textCalls st @ [(opts, length (allPlaces st))]\<rparr>"
  have stop1: "stopsAfterSuccess textSearch maxRes (textCalls st1)"
    using stopsAfterSuccess_snoc [OF Cons.prems] by (simp add: st1_def)
  show ?case
  proof (cases "textSearch opts")
    case (Inl e)
    have "isl (textSearch (fst (last (textCalls st1))))"
      using Inl by (simp add: st1_def)
    then show ?thesis
      using Cons.IH [of st1] stop1 Inl
      by (simp add: opts_def [symmetric] st1_def [symmetric] Let_def)
  next
    case (Inr places)
    define st2 where "st2 = addUnique places st1"
    have stop2: "stopsAfterSuccess textSearch maxRes (textCalls st2)"
      using stop1 by (simp add: st2_def addUnique_textCalls)
    show ?thesis
    proof (cases "maxRes \<le> int (length (allPlaces st2))")
      case True
      then show ?thesis
        using stop2 Inr
        by (simp add: opts_def [symmetric] st1_def [symmetric] st2_def [symmetric] Let_def)
    next
      case False
      then show ?thesis
        using Cons.IH [of st2] stop2 Inr
        by (simp add: opts_def [symmetric] st1_def [symmetric] st2_def [symmetric] Let_def)
    qed
  qed
qed

lemma keywordLoop_calls_extend:
  "\<exists>rest. textCalls (keywordLoop textSearch qlat qlng r maxRes ks st) = textCalls st @ rest"
proof (induction ks arbitrary: st)
  case Nil
  show ?case by simp
next
  case (Cons k ks)
  define opts where "opts = textOptions qlat qlng r maxRes k"
  define st1 where "st1 = st\<lparr>textCalls := textCalls st @ [(opts, length (allPlaces st))]\<rparr>"
  have c1: "textCalls st1 = textCalls st @ [(opts, length (allPlaces st))]"
    by (simp add: st1_def)
  show ?case
  proof (cases "textSearch opts")
    case (Inl e)
    obtain rest where "textCalls (keywordLoop textSearch qlat qlng r maxRes ks st1) =
        textCalls st1 @ rest"
      using Cons.IH [of st1] by blast
    then show ?thesis
      using Inl c1 by (simp add: opts_def [symmetric] st1_def [symmetric] Let_def)
  next
    case (Inr places)
    define st2 where "st2 = addUnique places st1"
    have c2: "textCalls st2 = textCalls st @ [(opts, length (allPlaces st))]"
      by (simp add: st2_def addUnique_textCalls c1)
    obtain rest where "textCalls (keywordLoop textSearch qlat qlng r maxRes ks st2) =
        textCalls st2 @ rest"
      using Cons.IH [of st2] by blast
    then show ?thesis
      using Inr c2
      by (simp add: opts_def [symmetric] st1_def [symmetric] st2_def [symmetric] Let_def)
  qed
qed

lemma keywordLoop_first_call:
  "\<exists>rest. textCalls (keywordLoop textSearch qlat qlng r maxRes (k # ks) st) =
     textCalls st @ (textOptions qlat qlng r maxRes k, length (allPlaces st)) # rest"
proof -
  define opts where "opts = textOptions qlat qlng r maxRes k"
  define st1 where "st1 = st\<lparr>textCalls := textCalls st @ [(opts, length (allPlaces st))]\<rparr>"
  have c1: "textCalls st1 = textCalls st @ [(opts, length (allPlaces st))]"
    by (simp add: st1_def)
  show ?thesis
  proof (cases "textSearch opts")
    case (Inl e)
    obtain rest where "textCalls (keywordLoop textSearch qlat qlng r maxRes ks st1) =
        textCalls st1 @ rest"
      using keywordLoop_calls_extend by blast
    then show ?thesis
      using Inl c1 by (simp add: opts_def [symmetric] st1_def [symmetric] Let_def)
  next
    case (Inr places)
    define st2 where "st2 = addUnique places st1"
    have c2: "textCalls st2 = textCalls st @ [(opts, length (allPlaces st))]"
      by (simp add: st2_def addUnique_textCalls c1)
    obtain rest where "textCalls (keywordLoop textSearch qlat qlng r maxRes ks st2) =
        textCalls st2 @ rest"
      using keywordLoop_calls_extend by blast
    then show ?thesis
      using Inr c2
      by (simp add: opts_def [symmetric] st1_def [symmetric] st2_def [symmetric] Let_def)
  qed
qed

lemma buildKeywords_nonempty: "\<exists>k ks. buildKeywords customKeyword = k # ks"
  by (simp add: buildKeywords_def DEFAULT_TURF_KEYWORDS_def split: option.split)


lemma searchTurfs_collect_stops:
  "stopsAfterSuccess textSearch maxRes
     (textCalls (searchTurfs_collect nearbySearch textSearch qlat qlng radiusKm customKeyword maxRes))"
proof -
  have "textCalls (nearbyPass nearbySearch (nearbyOptions qlat qlng (radiusKm * 1000) maxRes)
                     \<lparr>seenPlaceIds = {}, allPlaces = [], textCalls = []\<rparr>) = []"
    by (simp add: nearbyPass_def addUnique_textCalls split: sum.split)
  then show ?thesis
    unfolding searchTurfs_collect_def Let_def
    by (intro keywordLoop_stops) (simp_all add: stopsAfterSuccess_def)
qed

lemma searchTurfs_collect_first_call:
  "textCalls (searchTurfs_collect nearbySearch textSearch qlat qlng radiusKm customKeyword maxRes) \<noteq> []"
proof -
  obtain k ks where kw: "buildKeywords customKeyword = k # ks"
    using buildKeywords_nonempty by blast
  define st1 where "st1 = nearbyPass nearbySearch (nearbyOptions qlat qlng (radiusKm * 1000) maxRes)
                            \<lparr>seenPlaceIds = {}, allPlaces = [], textCalls = []\<rparr>"
  obtain rest where "textCalls (keywordLoop textSearch qlat qlng (radiusKm * 1000) maxRes (k # ks) st1) =
      textCalls st1 @ (textOptions qlat qlng (radiusKm * 1000) maxRes k, length (allPlaces st1)) # rest"
    using keywordLoop_first_call by blast
  then have "textCalls (keywordLoop textSearch qlat qlng (radiusKm * 1000) maxRes (k # ks) st1) \<noteq> []"
    by simp
  then show ?thesis
    unfolding searchTurfs_collect_def Let_def kw st1_def .
qed

text \<open>
  Claim C2, as the code has it. The first keyword search of a run is always issued,
  whatever the nearby pass accumulated. Of two text searches issued one after the other,
  the earlier one threw or the later one was issued while the accumulated unique count
  was below \<open>maxResults\<close>: after a keyword pass that returns, a count that has reached
  \<open>maxResults\<close> ends the loop. The count recorded with a call is the number of first-seen
  places among what the passes before it returned.
\<close>

theorem searchTurfs_early_stop:
  assumes "calls = textCalls (searchTurfs_collect nearbySearch textSearch qlat qlng radiusKm
                                customKeyword maxRes)"
    and "base = passResult (nearbySearch (nearbyOptions qlat qlng (radiusKm * 1000) maxRes))"
  shows "calls \<noteq> [] \<and>
         (\<forall>i. Suc i < length calls \<longrightarrow>
            isl (textSearch (fst (calls ! i))) \<or> int (snd (calls ! Suc i)) < maxRes) \<and>
         (\<forall>i < length calls.
            snd (calls ! i) = length (firstSeen (base @ callResults textSearch (take i calls))))"
proof (intro conjI)
  show "calls \<noteq> []"
    unfolding assms(1) by (rule searchTurfs_collect_first_call)
next
  show "\<forall>i. Suc i < length calls \<longrightarrow>
          isl (textSearch (fst (calls ! i))) \<or> int (snd (calls ! Suc i)) < maxRes"
    using searchTurfs_collect_stops [of textSearch maxRes nearbySearch qlat qlng radiusKm customKeyword]
    unfolding assms(1) stopsAfterSuccess_def .
next
  show "\<forall>i < length calls.
          snd (calls ! i) = length (firstSeen (base @ callResults textSearch (take i calls)))"
    using searchTurfs_collect_invariant [of textSearch nearbySearch qlat qlng radiusKm maxRes customKeyword]
    unfolding assms runInvariant_def by blast
qed

lemma example_calls_4:
  "textCalls (searchTurfs_collect example_nearby example_text 12 77 5 None 4) =
     [(textOptions 12 77 5000 4 ''turf'', 2), (textOptions 12 77 5000 4 ''football turf'', 3)]"
  by (simp add: searchTurfs_collect_def nearbyPass_def buildKeywords_def DEFAULT_TURF_KEYWORDS_def
      example_nearby_def example_text_def mkPlace_def textOptions_def Let_def)

theorem searchTurfs_early_stop_witness:
  "textCalls (searchTurfs_collect example_nearby example_text 12 77 5 None 4) =
     [(textOptions 12 77 5000 4 ''turf'', 2), (textOptions 12 77 5000 4 ''football turf'', 3)] \<and>
   \<not> isl (example_text (textOptions 12 77 5000 4 ''turf'')) \<and>
   int (snd ((textCalls (searchTurfs_collect example_nearby example_text 12 77 5 None 4)) ! Suc 0)) < 4"
proof -
  have "\<not> isl (example_text (textOptions 12 77 5000 4 ''turf''))"
    by (simp add: example_text_def textOptions_def)
  then show ?thesis
    using searchTurfs_early_stop
            [where nearbySearch = example_nearby and textSearch = example_text and qlat = 12
               and qlng = 77 and radiusKm = 5 and customKeyword = None and maxRes = 4,
             OF refl refl]
    by (simp add: example_calls_4)
qed

lemma example_calls_2:
  "textCalls (searchTurfs_collect example_nearby example_text 12 77 5 None 2) =
     [(textOptions 12 77 5000 2 ''turf'', 2)]"
  by (simp add: searchTurfs_collect_def nearbyPass_def buildKeywords_def DEFAULT_TURF_KEYWORDS_def
      example_nearby_def example_text_def mkPlace_def textOptions_def Let_def)

text \<open>
  Claim C2 as stated fails: with \<open>maxResults = 2\<close> and a nearby pass that finds two places,
  the first text search is issued although the accumulated unique count is already 2.
\<close>

theorem searchTurfs_call_after_cap_counterexample:
  "\<not> (\<forall>call \<in> set (textCalls (searchTurfs_collect example_nearby example_text 12 77 5 None 2)).
        int (snd call) < 2)"
  by (simp add: example_calls_2)

lemma count_list_distinct: "distinct xs \<Longrightarrow> x \<in> set xs \<Longrightarrow> count_list xs x = 1"
  by (induction xs) auto

lemma slice0_subset: "set (slice0 xs n) \<subseteq> set xs"
  by (auto simp: slice0_def dest: in_set_takeD)

lemma slice0_distinct: "distinct (map f xs) \<Longrightarrow> distinct (map f (slice0 xs n))"
  by (simp add: slice0_def take_map [symmetric] distinct_take)

text \<open>
  Claim C3. For every run of \<open>searchTurfs\<close>, the merged list \<open>allPlaces\<close> is the list of the
  first-seen places of what the passes returned (\<open>S\<close>, the nearby pass first, then the
  text searches in order): it contains every place id sighted, each exactly once, and
  each of its places is the first place with that id among the sightings, field for
  field. The list returned keeps a part of the merged list, so it contains no id twice
  either.
\<close>

theorem searchTurfs_first_seen:
  assumes "st = searchTurfs_collect nearbySearch textSearch qlat qlng radiusKm customKeyword maxRes"
    and "S = sightings nearbySearch textSearch (nearbyOptions qlat qlng (radiusKm * 1000) maxRes) st"
    and "out = searchTurfs nearbySearch textSearch qlat qlng radiusKm customKeyword maxRes"
  shows "allPlaces st = firstSeen S \<and>
         place_id ` set (allPlaces st) = place_id ` set S \<and>
         distinct (map place_id (allPlaces st)) \<and>
         (\<forall>i \<in> place_id ` set S. count_list (map place_id (allPlaces st)) i = 1) \<and>
         (\<forall>p \<in> set (allPlaces st). find (\<lambda>q. place_id q = place_id p) S = Some p) \<and>
         set out \<subseteq> set (allPlaces st) \<and>
         distinct (map place_id out)"
proof -
  have fs: "allPlaces st = firstSeen S"
    using searchTurfs_collect_invariant [of textSearch nearbySearch qlat qlng radiusKm maxRes customKeyword]
    unfolding assms(1,2) runInvariant_def sightings_def by blast
  have ids: "place_id ` set (allPlaces st) = place_id ` set S"
    unfolding fs by (rule firstSeen_ids)
  have dist: "distinct (map place_id (allPlaces st))"
    unfolding fs by (rule firstSeen_distinct)
  have once: "\<forall>i \<in> place_id ` set S. count_list (map place_id (allPlaces st)) i = 1"
  proof
    fix i
    assume "i \<in> place_id ` set S"
    then have "i \<in> set (map place_id (allPlaces st))"
      using ids by simp
    with dist show "count_list (map place_id (allPlaces st)) i = 1"
      by (rule count_list_distinct)
  qed
  have first: "\<forall>p \<in> set (allPlaces st). find (\<lambda>q. place_id q = place_id p) S = Some p"
    unfolding fs by (auto intro: firstSeen_find)
  have out: "out = slice0 (filter keepPlace (allPlaces st)) maxRes"
    unfolding assms(1,3) searchTurfs_def filterTurfResults_def ..
  have sub: "set out \<subseteq> set (allPlaces st)"
    unfolding out using slice0_subset [of "filter keepPlace (allPlaces st)" maxRes] by auto
  have "distinct (map place_id (filter keepPlace (allPlaces st)))"
    using dist by (rule distinct_map_filter)
  then have dout: "distinct (map place_id out)"
    unfolding out by (rule slice0_distinct)
  show ?thesis
    using fs ids dist once first sub dout by blast
qed

lemma example_collect_3:
  "allPlaces (searchTurfs_collect example_nearby example_text 12 77 5 None 3) =
     [mkPlace ''a'' (Some ''Arena One'') None, mkPlace ''b'' (Some ''Turf B'') None,
      mkPlace ''c'' (Some ''Turf C'') None] \<and>
   textCalls (searchTurfs_collect example_nearby example_text 12 77 5 None 3) =
     [(textOptions 12 77 5000 3 ''turf'', 2)]"
  by (simp add: searchTurfs_collect_def nearbyPass_def buildKeywords_def DEFAULT_TURF_KEYWORDS_def
      example_nearby_def example_text_def mkPlace_def textOptions_def Let_def)

theorem searchTurfs_first_seen_witness:
  "allPlaces (searchTurfs_collect example_nearby example_text 12 77 5 None 3) =
     [mkPlace ''a'' (Some ''Arena One'') None, mkPlace ''b'' (Some ''Turf B'') None,
      mkPlace ''c'' (Some ''Turf C'') None] \<and>
   sightings example_nearby example_text (nearbyOptions 12 77 (5 * 1000) 3)
       (searchTurfs_collect example_nearby example_text 12 77 5 None 3) =
     [mkPlace ''a'' (Some ''Arena One'') None, mkPlace ''b'' (Some ''Turf B'') None,
      mkPlace ''a'' (Some ''Arena Copy'') (Some [''gym'']), mkPlace ''c'' (Some ''Turf C'') None] \<and>
   find (\<lambda>q. place_id q = place_id (mkPlace ''a'' (Some ''Arena One'') None))
     (sightings example_nearby example_text (nearbyOptions 12 77 (5 * 1000) 3)
        (searchTurfs_collect example_nearby example_text 12 77 5 None 3)) =
     Some (mkPlace ''a'' (Some ''Arena One'') None) \<and>
   count_list
     (map place_id (allPlaces (searchTurfs_collect example_nearby example_text 12 77 5 None 3)))
     ''a'' = 1"
proof -
  let ?st = "searchTurfs_collect example_nearby example_text 12 77 5 None 3"
  let ?S = "sightings example_nearby example_text (nearbyOptions 12 77 (5 * 1000) 3) ?st"
  have S: "?S = [mkPlace ''a'' (Some ''Arena One'') None, mkPlace ''b'' (Some ''Turf B'') None,
      mkPlace ''a'' (Some ''Arena Copy'') (Some [''gym'']), mkPlace ''c'' (Some ''Turf C'') None]"
    by (simp add: sightings_def callResults_def passResult_def example_collect_3 example_nearby_def
        example_text_def textOptions_def)
  have a: "mkPlace ''a'' (Some ''Arena One'') None \<in> set (allPlaces ?st)"
    by (simp add: example_collect_3)
  have i: "''a'' \<in> place_id ` set ?S"
    unfolding S by (simp add: mkPlace_def)
  note inst = searchTurfs_first_seen
            [where nearbySearch = example_nearby and textSearch = example_text and qlat = 12
               and qlng = 77 and radiusKm = 5 and customKeyword = None and maxRes = 3,
             OF refl refl refl]
  have f: "find (\<lambda>q. place_id q = place_id (mkPlace ''a'' (Some ''Arena One'') None)) ?S =
           Some (mkPlace ''a'' (Some ''Arena One'') None)"
    using inst a by blast
  have c: "count_list (map place_id (allPlaces ?st)) ''a'' = 1"
    using inst i by blast
  show ?thesis
    using f c S example_collect_3 by blast
qed

subsection \<open>Result builder\<close>

lemma name_policy:
  "or_default (or_else a b) d = detail_wins (nonempty a) (nonempty b) d"
  by (cases a; cases b) (auto simp: or_default_def or_else_def detail_wins_def nonempty_def)

lemma nullish_policy: "nullish a b = detail_wins_nullable a b"
  by (cases a) (simp_all add: detail_wins_nullable_def)

lemma phone_policy:
  "(if truthy a then a else if truthy b then b else None) =
   detail_wins_nullable (nonempty a) (nonempty b)"
  by (cases a; cases b) (auto simp: detail_wins_nullable_def nonempty_def)

lemma map_throwing_total:
  "(\<And>x. \<exists>y. f x = Inr y) \<Longrightarrow> \<exists>ys. map_throwing f xs = Inr ys"
proof (induction xs)
  case Nil
  show ?case by simp
next
  case (Cons x xs)
  obtain y where "f x = Inr y"
    using Cons.prems by blast
  moreover obtain ys where "map_throwing f xs = Inr ys"
    using Cons by blast
  ultimately show ?case by simp
qed

lemma getPhotoUrls_total: "truthy apiKey \<Longrightarrow> \<exists>urls. getPhotoUrls apiKey photos n = Inr urls"
proof -
  assume "truthy apiKey"
  then obtain k where k: "apiKey = Some k" "k \<noteq> []"
    by (cases apiKey) auto
  have "\<And>photo. \<exists>y. getPhotoUrl apiKey (photo_name photo) = Inr y"
    using k by (simp add: getPhotoUrl_def getApiKey_def)
  then have all: "\<exists>urls. map_throwing (\<lambda>photo. getPhotoUrl apiKey (photo_name photo)) ps = Inr urls"
    for ps
    by (rule map_throwing_total)
  show ?thesis
  proof (cases photos)
    case None
    then show ?thesis
      by (simp add: getPhotoUrls_def)
  next
    case (Some ps)
    then show ?thesis
      using all [of "take n ps"] by (simp add: getPhotoUrls_def)
  qed
qed

lemma buildTurfResult_total:
  "truthy apiKey \<Longrightarrow> \<exists>r. buildTurfResult apiKey place details distanceKm = Inr r"
proof -
  assume "truthy apiKey"
  then obtain urls where
    "getPhotoUrls apiKey (nullish (opt_chain details details_photos) (place_photos place)) 3 = Inr urls"
    using getPhotoUrls_total by blast
  then show ?thesis
    by (simp add: buildTurfResult_def Let_def)
qed

lemma buildTurfResult_name:
  "buildTurfResult apiKey place details distanceKm = Inr r \<Longrightarrow>
   result_name r =
     detail_wins (nonempty (opt_chain (opt_chain details details_displayName) lt_text))
       (nonempty (opt_chain (place_displayName place) lt_text)) ''Unknown''"
  unfolding buildTurfResult_def Let_def name_policy
  by (auto split: sum.splits)

lemma buildTurfResult_address:
  "buildTurfResult apiKey place details distanceKm = Inr r \<Longrightarrow>
   result_address r =
     detail_wins (nonempty (opt_chain details details_formattedAddress))
       (nonempty (place_formattedAddress place)) ''Address not available''"
  unfolding buildTurfResult_def Let_def name_policy
  by (auto split: sum.splits)

lemma buildTurfResult_rating:
  "buildTurfResult apiKey place details distanceKm = Inr r \<Longrightarrow>
   result_rating r = detail_wins_nullable (opt_chain details details_rating) (place_rating place)"
  unfolding buildTurfResult_def Let_def nullish_policy
  by (auto split: sum.splits)

lemma buildTurfResult_openNow:
  "buildTurfResult apiKey place details distanceKm = Inr r \<Longrightarrow>
   result_openNow r =
     detail_wins_nullable (opt_chain (opt_chain details details_regularOpeningHours) openNow)
       (opt_chain (place_regularOpeningHours place) openNow)"
  unfolding buildTurfResult_def Let_def nullish_policy
  by (auto split: sum.splits)

lemma buildTurfResult_phone:
  "buildTurfResult apiKey place details distanceKm = Inr r \<Longrightarrow>
   result_phone r =
     detail_wins_nullable (nonempty (opt_chain details details_internationalPhoneNumber))
       (nonempty (opt_chain details details_nationalPhoneNumber))"
  unfolding buildTurfResult_def Let_def phone_policy
  by (auto split: sum.splits)

text \<open>
  Claim C6, as the code has it. With the key set, \<open>buildTurfResult\<close> returns a result, and
  each field of a result is resolved on its own: the detail record's value when present,
  otherwise the summary record's value when present, otherwise the sentinel, where for
  the strings resolved with \<open>||\<close> (name, address, phone) an empty string counts as absent.
  The sentinels are \<open>Unknown\<close> for the name, \<open>Address not available\<close> for the address and
  \<open>null\<close> for rating, phone and open status; the phone has no summary value, its second
  choice is the detail record's national number after the international one. With
  summary rating 4.0 and detail rating 4.5 the rating is 4.5; with no detail rating and
  summary rating 3.8 it is 3.8.
\<close>

theorem buildTurfResult_field_policy:
  "(truthy apiKey \<longrightarrow> (\<exists>r. buildTurfResult apiKey place details distanceKm = Inr r)) \<and>
   (\<forall>r. buildTurfResult apiKey place details distanceKm = Inr r \<longrightarrow>
      result_name r =
        detail_wins (nonempty (opt_chain (opt_chain details details_displayName) lt_text))
          (nonempty (opt_chain (place_displayName place) lt_text)) ''Unknown'' \<and>
      result_address r =
        detail_wins (nonempty (opt_chain details details_formattedAddress))
          (nonempty (place_formattedAddress place)) ''Address not available'' \<and>
      result_rating r =
        detail_wins_nullable (opt_chain details details_rating) (place_rating place) \<and>
      result_openNow r =
        detail_wins_nullable (opt_chain (opt_chain details details_regularOpeningHours) openNow)
          (opt_chain (place_regularOpeningHours place) openNow) \<and>
      result_phone r =
        detail_wins_nullable (nonempty (opt_chain details details_internationalPhoneNumber))
          (nonempty (opt_chain details details_nationalPhoneNumber)) \<and>
      (opt_chain details details_rating = Some (9 / 2) \<and> place_rating place = Some 4 \<longrightarrow>
         result_rating r = Some (9 / 2)) \<and>
      (opt_chain details details_rating = None \<and> place_rating place = Some (19 / 5) \<longrightarrow>
         result_rating r = Some (19 / 5)))"
proof (intro conjI allI impI)
  assume "truthy apiKey"
  then show "\<exists>r. buildTurfResult apiKey place details distanceKm = Inr r"
    by (rule buildTurfResult_total)
next
  fix r
  assume r: "buildTurfResult apiKey place details distanceKm = Inr r"
  show "result_name r =
        detail_wins (nonempty (opt_chain (opt_chain details details_displayName) lt_text))
          (nonempty (opt_chain (place_displayName place) lt_text)) ''Unknown''"
    using r by (rule buildTurfResult_name)
  show "result_address r =
        detail_wins (nonempty (opt_chain details details_formattedAddress))
          (nonempty (place_formattedAddress place)) ''Address not available''"
    using r by (rule buildTurfResult_address)
  show "result_rating r =
        detail_wins_nullable (opt_chain details details_rating) (place_rating place)"
    using r by (rule buildTurfResult_rating)
  show "result_openNow r =
        detail_wins_nullable (opt_chain (opt_chain details details_regularOpeningHours) openNow)
          (opt_chain (place_regularOpeningHours place) openNow)"
    using r by (rule buildTurfResult_openNow)
  show "result_phone r =
        detail_wins_nullable (nonempty (opt_chain details details_internationalPhoneNumber))
          (nonempty (opt_chain details details_nationalPhoneNumber))"
    using r by (rule buildTurfResult_phone)
  show "result_rating r = Some (9 / 2)"
    if "opt_chain details details_rating = Some (9 / 2) \<and> place_rating place = Some 4"
    using buildTurfResult_rating [OF r] that by (simp add: detail_wins_nullable_def)
  show "result_rating r = Some (19 / 5)"
    if "opt_chain details details_rating = None \<and> place_rating place = Some (19 / 5)"
    using buildTurfResult_rating [OF r] that by (simp add: detail_wins_nullable_def)
qed


lemma example_result_name:
  "(case buildTurfResult (Some ''key'') (mkPlace ''a'' (Some ''Arena'') None)
           (Some (mkDetails ''a'' (Some []) None)) (Num 1) of
      Inr r \<Rightarrow> result_name r = ''Arena''
    | Inl e \<Rightarrow> False)"
  by (simp add: buildTurfResult_def getPhotoUrls_def mkPlace_def mkDetails_def or_default_def
      or_else_def Let_def)

text \<open>
  Claim C6 as stated fails: a detail record whose display name is present but empty does
  not win; the summary record's name \<open>Arena\<close> is used.
\<close>

theorem buildTurfResult_empty_detail_name_counterexample:
  "\<not> (\<forall>r. buildTurfResult (Some ''key'') (mkPlace ''a'' (Some ''Arena'') None)
              (Some (mkDetails ''a'' (Some []) None)) (Num 1) = Inr r \<longrightarrow>
            result_name r =
              detail_wins
                (opt_chain (opt_chain (Some (mkDetails ''a'' (Some []) None)) details_displayName)
                   lt_text)
                (opt_chain (place_displayName (mkPlace ''a'' (Some ''Arena'') None)) lt_text)
                ''Unknown'')"
proof -
  have "detail_wins
          (opt_chain (opt_chain (Some (mkDetails ''a'' (Some []) None)) details_displayName) lt_text)
          (opt_chain (place_displayName (mkPlace ''a'' (Some ''Arena'') None)) lt_text)
          ''Unknown'' = []"
    by (simp add: detail_wins_def mkDetails_def mkPlace_def)
  then show ?thesis
    using example_result_name by (auto split: sum.splits)
qed

theorem buildTurfResult_field_policy_witness:
  "truthy (Some ''key'') \<and>
   (case buildTurfResult (Some ''key'') (mkPlace ''a'' (Some ''Arena'') None)
           (Some (mkDetails ''a'' (Some ''Arena Turf'') (Some (9 / 2)))) (Num 1) of
      Inr r \<Rightarrow> result_name r = ''Arena Turf'' \<and> result_rating r = Some (9 / 2) \<and>
               result_address r = ''Address not available'' \<and> result_phone r = None
    | Inl e \<Rightarrow> False)"
proof -
  have k: "truthy (Some ''key'')"
    by simp
  note inst = buildTurfResult_field_policy
    [of "Some ''key''" "mkPlace ''a'' (Some ''Arena'') None"
        "Some (mkDetails ''a'' (Some ''Arena Turf'') (Some (9 / 2)))" "Num 1"]
  obtain r where r: "buildTurfResult (Some ''key'') (mkPlace ''a'' (Some ''Arena'') None)
      (Some (mkDetails ''a'' (Some ''Arena Turf'') (Some (9 / 2)))) (Num 1) = Inr r"
    using inst k by blast
  have "result_name r = ''Arena Turf'' \<and> result_rating r = Some (9 / 2) \<and>
        result_address r = ''Address not available'' \<and> result_phone r = None"
    using inst r
    by (simp add: detail_wins_def detail_wins_nullable_def nonempty_def mkPlace_def mkDetails_def)
  then show ?thesis
    using k r by simp
qed

subsection \<open>Distance step\<close>

lemma set_insertByDistance: "set (insertByDistance x ys) = insert x (set ys)"
  by (induction ys) auto

lemma set_sortByDistanceKm: "set (sortByDistanceKm xs) = set xs"
  unfolding sortByDistanceKm_def by (induction xs) (simp_all add: set_insertByDistance)

lemma accepted_radius_finite: "\<not> radiusRejected radiusKm \<Longrightarrow> \<not> js_le Infinity radiusKm"
  by (cases radiusKm) (simp_all add: radiusRejected_def)

lemma withDistance_fst:
  "fst (withDistance haversineDistance roundDistance qlat qlng place) = place"
  by (simp add: withDistance_def Let_def split: option.split prod.split)

lemma withDistance_missing:
  assumes "\<not> truthy_num (opt_chain (place_location place) latitude) \<or>
           \<not> truthy_num (opt_chain (place_location place) longitude)"
  shows "withDistance haversineDistance roundDistance qlat qlng place = (place, Infinity)"
  using assms by (auto simp: withDistance_def Let_def)

text \<open>
  Claim C10. A place with no location, or whose location has no latitude or longitude,
  or a latitude or longitude equal to 0, fails the truthiness check of the distance step:
  it gets the distance \<open>Infinity\<close> and is in no output of the radius filter, for every radius
  that \<open>parseCliArgs\<close> accepts, and whatever \<open>haversineDistance\<close> and \<open>roundDistance\<close>
  compute for the other places.
\<close>

theorem zero_coordinate_excluded:
  assumes "\<not> radiusRejected radiusKm"
    and "place_location place = None \<or>
         (\<exists>loc. place_location place = Some loc \<and>
            (latitude loc = Some 0 \<or> longitude loc = Some 0 \<or>
             latitude loc = None \<or> longitude loc = None))"
  shows "withDistance haversineDistance roundDistance qlat qlng place = (place, Infinity) \<and>
         place \<notin> fst ` set (placesWithDistance haversineDistance roundDistance qlat qlng
                                radiusKm places)"
proof
  have falsy: "\<not> truthy_num (opt_chain (place_location place) latitude) \<or>
               \<not> truthy_num (opt_chain (place_location place) longitude)"
    using assms(2) by auto
  then show inf: "withDistance haversineDistance roundDistance qlat qlng place = (place, Infinity)"
    by (rule withDistance_missing)
  show "place \<notin> fst ` set (placesWithDistance haversineDistance roundDistance qlat qlng
                                radiusKm places)"
  proof
    assume "place \<in> fst ` set (placesWithDistance haversineDistance roundDistance qlat qlng
                                  radiusKm places)"
    then obtain d where
      "(place, d) \<in> set (placesWithDistance haversineDistance roundDistance qlat qlng
                            radiusKm places)"
      by force
    then have mem: "(place, d) \<in>
        set (map (withDistance haversineDistance roundDistance qlat qlng) places)"
      and le: "js_le d radiusKm"
      by (simp_all add: placesWithDistance_def set_sortByDistanceKm)
    from mem obtain p where p: "withDistance haversineDistance roundDistance qlat qlng p = (place, d)"
      by auto
    then have "p = place"
      using withDistance_fst [of haversineDistance roundDistance qlat qlng p] by simp
    then have "d = Infinity"
      using inf p by simp
    then show False
      using le accepted_radius_finite [OF assms(1)] by simp
  qed
qed

theorem zero_coordinate_excluded_witness:
  "\<not> radiusRejected (Num 5) \<and>
   withDistance (\<lambda>p q. Num 1) (\<lambda>d. d) (1 / 100) 1
     ((mkPlace ''e'' (Some ''Equator Turf'') None)
        \<lparr>place_location := Some \<lparr>latitude = Some 0, longitude = Some 1\<rparr>\<rparr>) =
     ((mkPlace ''e'' (Some ''Equator Turf'') None)
        \<lparr>place_location := Some \<lparr>latitude = Some 0, longitude = Some 1\<rparr>\<rparr>, Infinity) \<and>
   (mkPlace ''e'' (Some ''Equator Turf'') None)
        \<lparr>place_location := Some \<lparr>latitude = Some 0, longitude = Some 1\<rparr>\<rparr> \<notin>
     fst ` set (placesWithDistance (\<lambda>p q. Num 1) (\<lambda>d. d) (1 / 100) 1 (Num 5)
                  [(mkPlace ''e'' (Some ''Equator Turf'') None)
                     \<lparr>place_location := Some \<lparr>latitude = Some 0, longitude = Some 1\<rparr>\<rparr>,
                   mkPlace ''n'' (Some ''No Location Turf'') None])"
proof -
  let ?p = "(mkPlace ''e'' (Some ''Equator Turf'') None)
              \<lparr>place_location := Some \<lparr>latitude = Some 0, longitude = Some 1\<rparr>\<rparr>"
  have r: "\<not> radiusRejected (Num 5)"
    by (simp add: radiusRejected_def)
  have z: "place_location ?p = None \<or>
         (\<exists>loc. place_location ?p = Some loc \<and>
            (latitude loc = Some 0 \<or> longitude loc = Some 0 \<or>
             latitude loc = None \<or> longitude loc = None))"
    by (simp add: mkPlace_def)
  show ?thesis
    using zero_coordinate_excluded [OF r z] r by blast
qed

subsection \<open>Details batch\<close>

lemma details_settle_Inr: "\<exists>details c'. details_settle stringify now placeId r c = (Inr details, c')"
  by (simp add: details_settle_def split: sum.split option.split)

lemma details_settle_failed:
  "r = Inl e \<or> r = Inr None \<Longrightarrow> details_settle stringify now placeId r c = (Inr None, c)"
  by (auto simp: details_settle_def)

lemma taskEnd_settle:
  "\<exists>details c'.
     taskEnd placeId (details_settle stringify now placeId r c) st =
     Inr (st\<lparr>results := (results st)(placeId \<mapsto> details), detailsCache := c'\<rparr>)"
proof -
  obtain details c' where d: "details_settle stringify now placeId r c = (Inr details, c')"
    using details_settle_Inr by blast
  have "taskEnd placeId (details_settle stringify now placeId r c) st =
        Inr (st\<lparr>results := (results st)(placeId \<mapsto> details), detailsCache := c'\<rparr>)"
    by (simp add: taskEnd_def d)
  then show ?thesis
    by blast
qed

lemma startTask_step:
  assumes "queue st = placeId # rest"
  shows "\<exists>st'. startTask stringify apiKey now st = Inr st' \<and> queue st' = rest \<and>
           set (inFlight st') \<union> dom (results st') =
           insert placeId (set (inFlight st) \<union> dom (results st))"
proof -
  obtain hit c where g: "cache_get now (detailsCache st) (detailsKey stringify placeId) = (hit, c)"
    by (cases "cache_get now (detailsCache st) (detailsKey stringify placeId)")
  show ?thesis
  proof (cases hit)
    case (Some cached)
    then show ?thesis
      using assms g by (auto simp: startTask_def taskEnd_def)
  next
    case None
    show ?thesis
    proof (cases "getApiKey apiKey")
      case (Inl e)
      obtain details c' where
        "taskEnd placeId (details_settle stringify now placeId (Inl e) c) (st\<lparr>queue := rest\<rparr>) =
         Inr (st\<lparr>queue := rest, results := (results st)(placeId \<mapsto> details), detailsCache := c'\<rparr>)"
        using taskEnd_settle [of placeId stringify now "Inl e" c "st\<lparr>queue := rest\<rparr>"] by auto
      then show ?thesis
        using assms g None Inl by (auto simp: startTask_def)
    next
      case (Inr k)
      then show ?thesis
        using assms g None by (auto simp: startTask_def)
    qed
  qed
qed

lemma remove_nth_set:
  "i < length xs \<Longrightarrow> insert (xs ! i) (set (take i xs @ drop (Suc i) xs)) = set xs"
proof -
  assume "i < length xs"
  then have "xs = take i xs @ xs ! i # drop (Suc i) xs"
    by (rule id_take_nth_drop)
  then have "set xs = set (take i xs @ xs ! i # drop (Suc i) xs)"
    by simp
  then show ?thesis
    by auto
qed

lemma finishTask_step:
  assumes "inFlight st \<noteq> []"
  shows "\<exists>st'. finishTask stringify ev st = Inr st' \<and> queue st' = queue st \<and>
           set (inFlight st') \<union> dom (results st') = set (inFlight st) \<union> dom (results st)"
proof -
  define i where "i = ev_pick ev mod length (inFlight st)"
  have i: "i < length (inFlight st)"
    using assms by (simp add: i_def)
  obtain details c' where
    fin: "finishTask stringify ev st =
     Inr (st\<lparr>inFlight := take i (inFlight st) @ drop (Suc i) (inFlight st),
             results := (results st)(inFlight st ! i \<mapsto> details), detailsCache := c'\<rparr>)"
    using taskEnd_settle [of "inFlight st ! i" stringify "ev_now ev"
        "details_response (ev_outcome ev)" "detailsCache st"
        "st\<lparr>inFlight := take i (inFlight st) @ drop (Suc i) (inFlight st)\<rparr>"]
    by (auto simp: finishTask_def Let_def i_def)
  have "set (take i (inFlight st) @ drop (Suc i) (inFlight st)) \<union>
          dom ((results st)(inFlight st ! i \<mapsto> details)) =
        insert (inFlight st ! i) (set (take i (inFlight st) @ drop (Suc i) (inFlight st))) \<union>
          dom (results st)"
    by auto
  also have "\<dots> = set (inFlight st) \<union> dom (results st)"
    by (simp only: remove_nth_set [OF i])
  finally show ?thesis
    using fin by simp
qed

lemma runBatch_complete:
  assumes "0 < limit"
  shows "\<exists>st'. runBatch stringify apiKey limit sched k st = Inr st' \<and>
           queue st' = [] \<and> inFlight st' = [] \<and>
           dom (results st') = set (queue st) \<union> set (inFlight st) \<union> dom (results st)"
  using assms
proof (induction stringify apiKey limit sched k st rule: runBatch.induct)
  case (1 stringify apiKey limit sched k st)
  show ?case
  proof (cases "queue st \<noteq> [] \<and> length (inFlight st) < limit")
    case True
    then obtain placeId rest where q: "queue st = placeId # rest"
      by (cases "queue st") auto
    obtain st1 where s1: "startTask stringify apiKey (ev_now (sched k)) st = Inr st1"
      and q1: "queue st1 = rest"
      and d1: "set (inFlight st1) \<union> dom (results st1) =
               insert placeId (set (inFlight st) \<union> dom (results st))"
      using startTask_step [OF q] by blast
    obtain st' where "runBatch stringify apiKey limit sched (Suc k) st1 = Inr st'"
      and "queue st' = []" and "inFlight st' = []"
      and "dom (results st') = set (queue st1) \<union> set (inFlight st1) \<union> dom (results st1)"
      using "1.IH"(1) [OF True s1 "1.prems"] by blast
    moreover have "set (queue st1) \<union> set (inFlight st1) \<union> dom (results st1) =
        set (queue st) \<union> set (inFlight st) \<union> dom (results st)"
      using q q1 d1 by auto
    moreover have "runBatch stringify apiKey limit sched k st =
        runBatch stringify apiKey limit sched (Suc k) st1"
      using runBatch.simps [of stringify apiKey limit sched k st] True s1 by simp
    ultimately show ?thesis
      by simp
  next
    case False
    show ?thesis
    proof (cases "inFlight st \<noteq> []")
      case True
      obtain st1 where s1: "finishTask stringify (sched k) st = Inr st1"
        and q1: "queue st1 = queue st"
        and d1: "set (inFlight st1) \<union> dom (results st1) = set (inFlight st) \<union> dom (results st)"
        using finishTask_step [OF True] by blast
      obtain st' where "runBatch stringify apiKey limit sched (Suc k) st1 = Inr st'"
        and "queue st' = []" and "inFlight st' = []"
        and "dom (results st') = set (queue st1) \<union> set (inFlight st1) \<union> dom (results st1)"
        using "1.IH"(2) [OF False True s1 "1.prems"] by blast
      moreover have "set (queue st1) \<union> set (inFlight st1) \<union> dom (results st1) =
          set (queue st) \<union> set (inFlight st) \<union> dom (results st)"
        using q1 d1 by auto
      moreover have "runBatch stringify apiKey limit sched k st =
          runBatch stringify apiKey limit sched (Suc k) st1"
        using runBatch.simps [of stringify apiKey limit sched k st] False True s1 by simp
      ultimately show ?thesis
        by simp
    next
      case noFlight: False
      then have "queue st = []"
        using False "1.prems" by simp
      moreover have "runBatch stringify apiKey limit sched k st = Inr st"
        using runBatch.simps [of stringify apiKey limit sched k st] False noFlight by simp
      ultimately show ?thesis
        using noFlight by simp
    qed
  qed
qed


lemma getPlaceDetails_settles:
  "\<exists>details c'. getPlaceDetails stringify apiKey now later outcome placeId c = (Inr details, c')"
proof -
  obtain hit c1 where g: "cache_get now c (detailsKey stringify placeId) = (hit, c1)"
    by (cases "cache_get now c (detailsKey stringify placeId)")
  show ?thesis
  proof (cases hit)
    case None
    then show ?thesis
      using g details_settle_Inr [of stringify later placeId "details_try apiKey outcome" c1]
      by (simp add: getPlaceDetails_def)
  next
    case (Some cached)
    then show ?thesis
      using g by (simp add: getPlaceDetails_def)
  qed
qed

lemma details_try_failed:
  "outcome = Fetch_rejected \<or> (\<exists>n. outcome = Fetch_status n) \<Longrightarrow>
   (\<exists>e. details_try apiKey outcome = Inl e) \<or> details_try apiKey outcome = Inr None"
  by (auto simp: details_try_def details_response_def split: sum.split)

lemma getPlaceDetails_failed_null:
  assumes "fst (cache_get now c (detailsKey stringify placeId)) = None"
    and "outcome = Fetch_rejected \<or> (\<exists>n. outcome = Fetch_status n)"
  shows "fst (getPlaceDetails stringify apiKey now later outcome placeId c) = Inr None"
proof -
  obtain c1 where g: "cache_get now c (detailsKey stringify placeId) = (None, c1)"
    using assms(1) by (cases "cache_get now c (detailsKey stringify placeId)") auto
  have "details_settle stringify later placeId (details_try apiKey outcome) c1 = (Inr None, c1)"
    using details_try_failed [OF assms(2), of apiKey] by (auto intro: details_settle_failed)
  then show ?thesis
    using g by (simp add: getPlaceDetails_def)
qed

lemma finishTask_failed_null:
  assumes "inFlight st \<noteq> []"
    and "ev_outcome ev = Fetch_rejected \<or> (\<exists>n. ev_outcome ev = Fetch_status n)"
  shows "\<exists>st'. finishTask stringify ev st = Inr st' \<and>
           results st' (inFlight st ! (ev_pick ev mod length (inFlight st))) = Some None"
proof -
  have "details_response (ev_outcome ev) = Inl NetworkError \<or>
        details_response (ev_outcome ev) = Inr None"
    using assms(2) by (auto simp: details_response_def)
  then have "details_settle stringify (ev_now ev)
               (inFlight st ! (ev_pick ev mod length (inFlight st)))
               (details_response (ev_outcome ev)) (detailsCache st) =
             (Inr None, detailsCache st)"
    by (auto intro: details_settle_failed)
  then show ?thesis
    by (simp add: finishTask_def Let_def taskEnd_def)
qed

text \<open>
  Claim C7. For every list of place ids, every schedule of the requests and every limit
  from 1 up, \<open>getPlaceDetailsBatch\<close> returns, and only with no task queued or in flight;
  the map it returns has an entry for exactly the requested ids. \<open>getPlaceDetails\<close> never
  rejects; a request that ends with a non-success status or is rejected settles it with
  \<open>null\<close>, and in the batch that \<open>null\<close> becomes the entry of the place id.
\<close>

theorem getPlaceDetailsBatch_resolves_every_id:
  "(1 \<le> limit \<longrightarrow>
      (\<exists>st. getPlaceDetailsBatch stringify apiKey sched c placeIds limit = Inr st \<and>
            queue st = [] \<and> inFlight st = [] \<and> dom (results st) = set placeIds)) \<and>
   (\<exists>details c'. getPlaceDetails stringify apiKey now later outcome placeId c = (Inr details, c')) \<and>
   (fst (cache_get now c (detailsKey stringify placeId)) = None \<and>
    (outcome = Fetch_rejected \<or> (\<exists>n. outcome = Fetch_status n)) \<longrightarrow>
      fst (getPlaceDetails stringify apiKey now later outcome placeId c) = Inr None) \<and>
   (inFlight st0 \<noteq> [] \<and>
    (ev_outcome ev = Fetch_rejected \<or> (\<exists>n. ev_outcome ev = Fetch_status n)) \<longrightarrow>
      (\<exists>st'. finishTask stringify ev st0 = Inr st' \<and>
             results st' (inFlight st0 ! (ev_pick ev mod length (inFlight st0))) = Some None))"
proof (intro conjI impI)
  assume "1 \<le> limit"
  then have "0 < nat limit"
    by simp
  then obtain st where
    "runBatch stringify apiKey (nat limit) sched 0
       \<lparr>queue = placeIds, inFlight = [], results = Map.empty, detailsCache = c\<rparr> = Inr st"
    and "queue st = []" and "inFlight st = []"
    and "dom (results st) = set placeIds"
    using runBatch_complete [of "nat limit" stringify apiKey sched 0
        "\<lparr>queue = placeIds, inFlight = [], results = Map.empty, detailsCache = c\<rparr>"]
    by auto
  then show "\<exists>st. getPlaceDetailsBatch stringify apiKey sched c placeIds limit = Inr st \<and>
            queue st = [] \<and> inFlight st = [] \<and> dom (results st) = set placeIds"
    using \<open>1 \<le> limit\<close> by (simp add: getPlaceDetailsBatch_def)
next
  show "\<exists>details c'. getPlaceDetails stringify apiKey now later outcome placeId c = (Inr details, c')"
    by (rule getPlaceDetails_settles)
next
  assume "fst (cache_get now c (detailsKey stringify placeId)) = None \<and>
    (outcome = Fetch_rejected \<or> (\<exists>n. outcome = Fetch_status n))"
  then show "fst (getPlaceDetails stringify apiKey now later outcome placeId c) = Inr None"
    using getPlaceDetails_failed_null by blast
next
  assume "inFlight st0 \<noteq> [] \<and>
    (ev_outcome ev = Fetch_rejected \<or> (\<exists>n. ev_outcome ev = Fetch_status n))"
  then show "\<exists>st'. finishTask stringify ev st0 = Inr st' \<and>
             results st' (inFlight st0 ! (ev_pick ev mod length (inFlight st0))) = Some None"
    using finishTask_failed_null by blast
qed

lemma example_batch:
  "getPlaceDetailsBatch example_stringify (Some ''key'') example_sched example_cache
     [''p1'', ''p2''] (concurrencyLimit DEFAULT_CONFIG) =
   Inr \<lparr>queue = [], inFlight = [], results = [''p1'' \<mapsto> None, ''p2'' \<mapsto> None],
        detailsCache = example_cache\<rparr>"
  by (simp add: getPlaceDetailsBatch_def DEFAULT_CONFIG_def runBatch.simps startTask_def
      finishTask_def taskEnd_def details_settle_def details_response_def cache_get_def
      getApiKey_def example_sched_def example_cache_def Let_def)


theorem getPlaceDetailsBatch_resolves_every_id_witness:
  "1 \<le> concurrencyLimit DEFAULT_CONFIG \<and>
   (case getPlaceDetailsBatch example_stringify (Some ''key'') example_sched example_cache
           [''p1'', ''p2''] (concurrencyLimit DEFAULT_CONFIG) of
      Inr st \<Rightarrow> queue st = [] \<and> inFlight st = [] \<and> dom (results st) = {''p1'', ''p2''} \<and>
                results st ''p1'' = Some None \<and> results st ''p2'' = Some None
    | Inl e \<Rightarrow> False)"
proof -
  have l: "1 \<le> concurrencyLimit DEFAULT_CONFIG"
    by (simp add: DEFAULT_CONFIG_def)
  note inst = getPlaceDetailsBatch_resolves_every_id
    [where limit = "concurrencyLimit DEFAULT_CONFIG" and stringify = example_stringify
       and apiKey = "Some ''key''" and sched = example_sched and c = example_cache
       and placeIds = "[''p1'', ''p2'']"]
  obtain st where st: "getPlaceDetailsBatch example_stringify (Some ''key'') example_sched
      example_cache [''p1'', ''p2''] (concurrencyLimit DEFAULT_CONFIG) = Inr st"
    and fin: "queue st = []" "inFlight st = []" "dom (results st) = set [''p1'', ''p2'']"
    using inst l by blast
  have "st = \<lparr>queue = [], inFlight = [], results = [''p1'' \<mapsto> None, ''p2'' \<mapsto> None],
              detailsCache = example_cache\<rparr>"
    using st by (simp add: example_batch)
  then have "results st ''p1'' = Some None" "results st ''p2'' = Some None"
    by simp_all
  then show ?thesis
    using l st fin by auto
qed

end
